theory Spec2Isabelle
  imports Complex_Main "HOL-Library.Word" "HOL-Library.Sublist" "HOL-Library.AList"
    "HOL-Library.Multiset"
begin

section \<open>Layer/module resolver (sparseml/utils/pytorch/module.py)\<close>

subsection \<open>Python's re.match on a fragment of the pattern syntax\<close>

text \<open>
  \<^verbatim>\<open>match_targets\<close> calls \<^verbatim>\<open>re.match(pattern, name)\<close> of Python's standard library.
  The library is modelled on a fragment of its pattern syntax: ordinary characters, the
  wildcard \<^verbatim>\<open>.\<close> (any character but a newline), a backslash before a punctuation
  character, and a postfix \<^verbatim>\<open>*\<close> on one such atom. \<open>re_parse\<close> returns \<open>None\<close> for every
  other pattern (among them the ones \<^verbatim>\<open>re.compile\<close> rejects); \<open>re_match\<close> is then \<open>False\<close>,
  and nothing is claimed about such patterns.
\<close>

datatype re_atom = Lit char | Dot

datatype re_item = Once re_atom | Star re_atom

definition re_meta :: "char set" where
  "re_meta = set (CHR 0x5C # ''.^$*+?{}[]|()'')"

fun re_parse_atom :: "string \<Rightarrow> (re_atom \<times> string) option" where
  "re_parse_atom [] = None"
| "re_parse_atom (c # cs) =
     (if c = CHR ''.'' then Some (Dot, cs)
      else if c = CHR 0x5C then
        (case cs of
           [] \<Rightarrow> None
         | e # es \<Rightarrow> if e \<in> re_meta then Some (Lit e, es) else None)
      else if c \<in> re_meta then None
      else Some (Lit c, cs))"

function re_parse :: "string \<Rightarrow> re_item list option" where
  "re_parse s =
     (if s = [] then Some []
      else case re_parse_atom s of
        None \<Rightarrow> None
      | Some (a, r) \<Rightarrow>
          (case r of
             [] \<Rightarrow> Some [Once a]
           | c # cs \<Rightarrow>
               if c = CHR ''*'' then map_option ((#) (Star a)) (re_parse cs)
               else map_option ((#) (Once a)) (re_parse r)))"
  by pat_completeness auto
termination
  by (relation "measure length") (auto simp: neq_Nil_conv split: if_splits list.splits)

declare re_parse.simps [simp del]

fun atom_ok :: "re_atom \<Rightarrow> char \<Rightarrow> bool" where
  "atom_ok (Lit a) c = (a = c)"
| "atom_ok Dot c = (c \<noteq> CHR 0x0A)"

text \<open>
  \<open>items_match its s\<close>: some prefix of \<open>s\<close> is matched by the items, which is what
  \<^verbatim>\<open>re.match\<close> asks (the match starts at position 0 and may end anywhere).
\<close>

function items_match :: "re_item list \<Rightarrow> string \<Rightarrow> bool" where
  "items_match [] s = True"
| "items_match (Once a # r) [] = False"
| "items_match (Once a # r) (c # cs) = (atom_ok a c \<and> items_match r cs)"
| "items_match (Star a # r) [] = items_match r []"
| "items_match (Star a # r) (c # cs) =
     ((atom_ok a c \<and> items_match (Star a # r) cs) \<or> items_match r (c # cs))"
  by pat_completeness auto
termination
  by (relation "measure (\<lambda>(its, s). length its + length s)") auto

definition re_match :: "string \<Rightarrow> string \<Rightarrow> bool" where
  "re_match pattern name =
     (case re_parse pattern of None \<Rightarrow> False | Some its \<Rightarrow> items_match its name)"

text \<open>The words an item list denotes (the reference semantics of the fragment).\<close>

fun atom_lang :: "re_atom \<Rightarrow> string set" where
  "atom_lang a = {[c] | c. atom_ok a c}"

inductive star_word :: "re_atom \<Rightarrow> string \<Rightarrow> bool" where
  star_nil: "star_word a []"
| star_cons: "atom_ok a c \<Longrightarrow> star_word a w \<Longrightarrow> star_word a (c # w)"

fun items_lang :: "re_item list \<Rightarrow> string set" where
  "items_lang [] = {[]}"
| "items_lang (Once a # r) = {c # w | c w. atom_ok a c \<and> w \<in> items_lang r}"
| "items_lang (Star a # r) = {u @ w | u w. star_word a u \<and> w \<in> items_lang r}"

subsection \<open>match_targets\<close>

text \<open>
  \<^verbatim>\<open>targets: Union[str, List[str]]\<close>: a single string is wrapped into a one-element list.
\<close>

datatype targets = Str string | Lst "string list"

definition as_list :: "targets \<Rightarrow> string list" where
  "as_list t = (case t of Str s \<Rightarrow> [s] | Lst l \<Rightarrow> l)"

text \<open>
  The loop \<^verbatim>\<open>for index, target in enumerate(targets)\<close>; the first target that matches
  decides the returned index, \<open>(False, -1)\<close> when none does.
\<close>

fun match_targets_from :: "nat \<Rightarrow> string \<Rightarrow> string list \<Rightarrow> bool \<times> int" where
  "match_targets_from index name [] = (False, -1)"
| "match_targets_from index name (target # rest) =
     (if take 3 target = ''re:'' then
        (if re_match (drop 3 target) name then (True, int index)
         else match_targets_from (Suc index) name rest)
      else if name = target then (True, int index)
      else match_targets_from (Suc index) name rest)"

definition match_targets :: "string \<Rightarrow> targets \<Rightarrow> bool \<times> int" where
  "match_targets name ts = match_targets_from 0 name (as_list ts)"

subsection \<open>The module tree\<close>

text \<open>
  A \<^verbatim>\<open>torch.nn.Module\<close>: its class (as far as the resolver's \<^verbatim>\<open>isinstance\<close> tests tell
  classes apart), its own named parameters (a parameter is identified by a number) and
  its named child modules, in registration order. The tree has no shared submodule.
\<close>

datatype layer_kind =
  Linear | ConvNd | QATLinear | QATConv2d | QATConv3d | TransformerConv1D | OtherLayer

datatype module =
  Module (kind: layer_kind) (own_params: "(string \<times> nat) list")
    (submodules: "(string \<times> module) list")

text \<open>
  \<^verbatim>\<open>module.named_modules()\<close>: the module itself under the prefix (the empty string for the
  root), then every child's modules under \<^verbatim>\<open>prefix + ("." if prefix else "") + name\<close>.
\<close>

fun named_modules :: "string \<Rightarrow> module \<Rightarrow> (string \<times> module) list" where
  "named_modules pfx (Module k ps cs) =
     (pfx, Module k ps cs) #
     concat (map (\<lambda>p. named_modules (pfx @ (if pfx = [] then [] else ''.'') @ fst p) (snd p)) cs)"

text \<open>
  \<^verbatim>\<open>layer.named_parameters()\<close>: the layer's own parameters, then those of its descendants
  under dotted names.
\<close>

fun named_parameters :: "module \<Rightarrow> (string \<times> nat) list" where
  "named_parameters (Module k ps cs) =
     ps @ concat (map (\<lambda>p. map (\<lambda>q. (fst p @ ''.'' @ fst q, snd q)) (named_parameters (snd p))) cs)"

datatype resolved_value = Layer module | Parameter nat

type_synonym resolved = "(string \<times> resolved_value) list"

datatype error = ValueError "string list" | ImportError

text \<open>
  Whether the optional classes could be imported when the file was loaded (the
  \<^verbatim>\<open>try: ... except\<close> blocks at its top).
\<close>

record imports_env =
  qat_available :: bool
  qat_conv3d_available :: bool
  conv1d_available :: bool

definition is_Linear :: "layer_kind \<Rightarrow> bool" where
  "is_Linear k = (k = Linear \<or> k = QATLinear)"

definition is_ConvNd :: "layer_kind \<Rightarrow> bool" where
  "is_ConvNd k = (k = ConvNd \<or> k = QATConv2d \<or> k = QATConv3d)"

definition get_terminal_layers :: "module \<Rightarrow> resolved" where
  "get_terminal_layers m =
     fold (\<lambda>(name, layer) terminal.
             if length (named_modules [] layer) > 1 then terminal
             else AList.update name (Layer layer) terminal)
       (named_modules [] m) []"

definition get_prunable_layers :: "imports_env \<Rightarrow> module \<Rightarrow> resolved" where
  "get_prunable_layers env m =
     fold (\<lambda>(name, layer) prunable.
             if is_Linear (kind layer) \<or> is_ConvNd (kind layer)
                \<or> (qat_available env \<and> kind layer = QATLinear)
                \<or> (qat_available env \<and> kind layer = QATConv2d)
                \<or> (qat_conv3d_available env \<and> kind layer = QATConv3d)
                \<or> (conv1d_available env \<and> kind layer = TransformerConv1D)
             then AList.update name (Layer layer) prunable else prunable)
       (named_modules [] m) []"

definition get_quantizable_layers :: "imports_env \<Rightarrow> module \<Rightarrow> error + resolved" where
  "get_quantizable_layers env m =
     (if \<not> qat_available env then Inl ImportError
      else Inr (fold (\<lambda>(name, layer) quantizable.
                        if is_Linear (kind layer) \<or> is_ConvNd (kind layer)
                        then AList.update name (Layer layer) quantizable else quantizable)
                  (named_modules [] m) []))"

text \<open>
  \<^verbatim>\<open>get_default_params\<close>: for every layer the first parameter named \<^verbatim>\<open>weight\<close>, if any.
\<close>

definition get_default_params :: "resolved \<Rightarrow> resolved" where
  "get_default_params layers =
     fold (\<lambda>(name, v) params.
             case v of
               Parameter _ \<Rightarrow> params
             | Layer layer \<Rightarrow>
                 (case find (\<lambda>q. fst q = ''weight'') (named_parameters layer) of
                    None \<Rightarrow> params
                  | Some q \<Rightarrow> AList.update name (Parameter (snd q)) params))
       layers []"

subsection \<open>match_layers_params\<close>

definition ALL_TARGET :: string where "ALL_TARGET = ''__ALL__''"
definition ALL_PRUNABLE_TARGET :: string where "ALL_PRUNABLE_TARGET = ''__ALL_PRUNABLE__''"
definition ALL_QUANTIZABLE_TARGET :: string where
  "ALL_QUANTIZABLE_TARGET = ''__ALL_QUANTIZABLE__''"

text \<open>
  The inner loop \<^verbatim>\<open>for param_name, param in layer.named_parameters()\<close>. The state is
  \<^verbatim>\<open>(targets_found, resolved)\<close>. A match index is never negative when the match flag is
  set, so \<^verbatim>\<open>targets_found[param_match_index] = True\<close> is an update at \<open>nat index\<close>.
\<close>

fun params_loop ::
  "bool \<Rightarrow> string list \<Rightarrow> string \<Rightarrow> module \<Rightarrow> (string \<times> nat) list \<Rightarrow>
   bool list \<times> resolved \<Rightarrow> bool list \<times> resolved" where
  "params_loop params ts name layer [] st = st"
| "params_loop params ts name layer ((param_name, param) # rest) (targets_found, resolved) =
     (if CHR ''.'' \<in> set param_name then
        params_loop params ts name layer rest (targets_found, resolved)
      else
        (case match_targets (name @ ''.'' @ param_name) (Lst ts) of
           (param_match, param_match_index) \<Rightarrow>
             if param_match then
               params_loop params ts name layer rest
                 (targets_found[nat param_match_index := True],
                  AList.update name (if \<not> params then Layer layer else Parameter param) resolved)
             else params_loop params ts name layer rest (targets_found, resolved)))"

text \<open>The outer loop \<^verbatim>\<open>for name, layer in module.named_modules()\<close>.\<close>

fun modules_loop ::
  "bool \<Rightarrow> string list \<Rightarrow> (string \<times> module) list \<Rightarrow>
   bool list \<times> resolved \<Rightarrow> bool list \<times> resolved" where
  "modules_loop params ts [] st = st"
| "modules_loop params ts ((name, layer) # rest) (targets_found, resolved) =
     (case match_targets name (Lst ts) of
        (match, match_index) \<Rightarrow>
          modules_loop params ts rest
            (params_loop params ts name layer (named_parameters layer)
               (if match \<and> \<not> params
                then (targets_found[nat match_index := True],
                      AList.update name (Layer layer) resolved)
                else (targets_found, resolved))))"

definition match_layers_params ::
  "imports_env \<Rightarrow> targets \<Rightarrow> module \<Rightarrow> bool \<Rightarrow> error + resolved" where
  "match_layers_params env targets m params =
     (if targets = Str ALL_TARGET then
        (let values = get_terminal_layers m
         in Inr (if \<not> params then values else get_default_params values))
      else if targets = Str ALL_PRUNABLE_TARGET then
        (let values = get_prunable_layers env m
         in Inr (if \<not> params then values else get_default_params values))
      else if targets = Str ALL_QUANTIZABLE_TARGET then
        (case get_quantizable_layers env m of
           Inl e \<Rightarrow> Inl e
         | Inr values \<Rightarrow> Inr (if \<not> params then values else get_default_params values))
      else
        (let ts = as_list targets;
             (targets_found, resolved) =
               modules_loop params ts (named_modules [] m) (replicate (length ts) False, []);
             missed = map snd (filter (\<lambda>(found, target). \<not> found) (zip targets_found ts))
         in if length missed > 0 then Inl (ValueError missed) else Inr resolved))"

section \<open>KV-cache transform (sparseml/exporters/transforms/add_kv_cache.py)\<close>

subsection \<open>The computation graph\<close>

text \<open>
  An ONNX \<^verbatim>\<open>NodeProto\<close> (name, operator type, ordered input and output tensor names), a
  \<^verbatim>\<open>ValueInfoProto\<close> (a graph input or output: name, element type, shape) and the model's
  graph. The transform mutates the model in place; here it returns the updated model.
\<close>

record node =
  node_name :: string
  node_op_type :: string
  node_input :: "string list"
  node_output :: "string list"

datatype elem_type = FLOAT | INT64

record value_info =
  vi_name :: string
  vi_elem_type :: elem_type
  vi_shape :: "nat list"

record model =
  graph_node :: "node list"
  graph_input :: "value_info list"
  graph_output :: "value_info list"

subsection \<open>Structural matches\<close>

text \<open>
  A \<^verbatim>\<open>MatchResult\<close>: the centre node and, per requested chain, the nodes of the chain. The
  Python object holds references to the nodes of the model; a node is identified here
  by its position in \<open>graph_node\<close>.
\<close>

record match_result =
  match_node :: nat
  match_parents :: "nat list list"
  match_children :: "nat list list"

text \<open>
  The nodes of the graph with their positions, the producers of a node's inputs (in
  input order) and the consumers of its outputs (in graph order).
\<close>

definition indexed :: "node list \<Rightarrow> (nat \<times> node) list" where
  "indexed ns = List.enumerate 0 ns"

definition node_parents :: "(nat \<times> node) list \<Rightarrow> node \<Rightarrow> (nat \<times> node) list" where
  "node_parents ins n =
     concat (map (\<lambda>x. filter (\<lambda>p. x \<in> set (node_output (snd p))) ins) (node_input n))"

definition node_children :: "(nat \<times> node) list \<Rightarrow> node \<Rightarrow> (nat \<times> node) list" where
  "node_children ins n =
     filter (\<lambda>p. \<exists>x \<in> set (node_output n). x \<in> set (node_input (snd p))) ins"

text \<open>
  Walking one chain of operator types outwards from a neighbour \<open>c\<close> of the centre node:
  every position must exist and carry the requested type, and a position that is not
  the last must have exactly one neighbour to go on with.
\<close>

fun walk_chain ::
  "(node \<Rightarrow> (nat \<times> node) list) \<Rightarrow> nat \<times> node \<Rightarrow> string list \<Rightarrow> nat list option" where
  "walk_chain nxt c [] = Some []"
| "walk_chain nxt c (t # rest) =
     (if node_op_type (snd c) \<noteq> t then None
      else if rest = [] then Some [fst c]
      else (case nxt (snd c) of
              [c'] \<Rightarrow> map_option ((#) (fst c)) (walk_chain nxt c' rest)
            | _ \<Rightarrow> None))"

definition match_at ::
  "(nat \<times> node) list \<Rightarrow> string \<Rightarrow> string list list \<Rightarrow> string list list \<Rightarrow>
   nat \<times> node \<Rightarrow> match_result option" where
  "match_at ins op_type parent_ops children_ops c =
     (if node_op_type (snd c) \<noteq> op_type then None
      else
        let ps = node_parents ins (snd c); cs = node_children ins (snd c)
        in if length ps \<noteq> length parent_ops \<or> length cs \<noteq> length children_ops then None
           else
             (case (those (map2 (walk_chain (node_parents ins)) ps parent_ops),
                    those (map2 (walk_chain (node_children ins)) cs children_ops)) of
                (Some P, Some C) \<Rightarrow>
                  Some \<lparr>match_node = fst c, match_parents = P, match_children = C\<rparr>
              | _ \<Rightarrow> None))"

text \<open>
  Modelled from the spec: \<^verbatim>\<open>get_structural_matches\<close> of
  \<^verbatim>\<open>sparseml.exporters.transforms.utils\<close>, which the transform imports. Section 4.1: for
  every operation whose type equals \<^verbatim>\<open>op_type\<close>, each requested parent chain is walked
  backward through producer edges and each child chain forward through consumer edges;
  a candidate fails if a chain position has no neighbour, or more than expected, or a
  neighbour of another type; the matches come in the graph's node order.
\<close>

definition get_structural_matches ::
  "model \<Rightarrow> string \<Rightarrow> string list list \<Rightarrow> string list list \<Rightarrow> match_result list" where
  "get_structural_matches g op_type parent_ops children_ops =
     List.map_filter (match_at (indexed (graph_node g)) op_type parent_ops children_ops)
       (indexed (graph_node g))"

subsection \<open>AddKeyValueCache.transform\<close>

datatype kv_error = AssertionError | IndexError

text \<open>\<^verbatim>\<open>model.graph.input.insert(-1, x)\<close>: before the last element, as Python's lists do.\<close>

definition insert_before_last :: "'a \<Rightarrow> 'a list \<Rightarrow> 'a list" where
  "insert_before_last x xs = (if xs = [] then [x] else butlast xs @ [x, last xs])"

definition cache_length :: value_info where
  "cache_length = \<lparr>vi_name = ''cache_length'', vi_elem_type = INT64, vi_shape = []\<rparr>"

text \<open>
  The loop \<^verbatim>\<open>for match_idx, match in enumerate(gather_nodes)\<close>: the first node of the first
  child chain gets \<^verbatim>\<open>input[1] = "cache_length"\<close>. An index that does not exist raises
  \<^verbatim>\<open>IndexError\<close>; the nodes rewired before it stay rewired.
\<close>

fun rewire_adds :: "match_result list \<Rightarrow> node list \<Rightarrow> kv_error option \<times> node list" where
  "rewire_adds [] ns = (None, ns)"
| "rewire_adds (m # ms) ns =
     (case match_children m of
        [] \<Rightarrow> (Some IndexError, ns)
      | chain # _ \<Rightarrow>
          (case chain of
             [] \<Rightarrow> (Some IndexError, ns)
           | add_node # _ \<Rightarrow>
               if length (node_input (ns ! add_node)) \<le> 1 then (Some IndexError, ns)
               else rewire_adds ms
                      (ns[add_node := (ns ! add_node)
                            \<lparr>node_input := (node_input (ns ! add_node))[1 := ''cache_length'']\<rparr>])))"

definition gather_nodes :: "model \<Rightarrow> match_result list" where
  "gather_nodes g =
     filter (\<lambda>m. suffix ''15'' (node_name (graph_node g ! match_node m)))
       (get_structural_matches g ''Gather'' [[''Shape'']] [[''Add'', ''Cast'', ''Range'']])"

text \<open>
  The result is the exception the call raises, if any, and the model object as the call
  leaves it (the returned model when nothing is raised).
\<close>

definition transform :: "model \<Rightarrow> kv_error option \<times> model" where
  "transform g =
     (let ms = gather_nodes g
      in if length ms \<noteq> 20 then (Some AssertionError, g)
         else
           let g1 = g\<lparr>graph_input := insert_before_last cache_length (graph_input g)\<rparr>
           in (case rewire_adds ms (graph_node g1) of
                 (e, ns) \<Rightarrow> (e, g1\<lparr>graph_node := ns\<rparr>)))"

text \<open>
  A decoder graph for the examples: per attention layer a Shape node, a Gather node whose
  name ends in \<^verbatim>\<open>15\<close>, and the Add, Cast and Range nodes that follow it. Layer \<open>k\<close> marks
  its names with the \<open>k\<close>-th letter after \<^verbatim>\<open>a\<close>; \<open>offset\<close> names the second input of the
  Add nodes (the initializer \<^verbatim>\<open>zero\<close> in an exported graph).
\<close>

definition layer_tag :: "nat \<Rightarrow> string" where
  "layer_tag k = [char_of (97 + k)]"

definition layer_nodes :: "string \<Rightarrow> nat \<Rightarrow> node list" where
  "layer_nodes offset k =
     (let t = layer_tag k in
      [\<lparr>node_name = t @ ''/Shape_14'', node_op_type = ''Shape'',
        node_input = [''input_ids''], node_output = [t @ ''/shape'']\<rparr>,
       \<lparr>node_name = t @ ''/Gather_15'', node_op_type = ''Gather'',
        node_input = [t @ ''/shape'', ''one''], node_output = [t @ ''/seq_len'']\<rparr>,
       \<lparr>node_name = t @ ''/Add_16'', node_op_type = ''Add'',
        node_input = [t @ ''/seq_len'', offset], node_output = [t @ ''/end'']\<rparr>,
       \<lparr>node_name = t @ ''/Cast_17'', node_op_type = ''Cast'',
        node_input = [t @ ''/end''], node_output = [t @ ''/end_i64'']\<rparr>,
       \<lparr>node_name = t @ ''/Range_18'', node_op_type = ''Range'',
        node_input = [''zero'', t @ ''/end_i64'', ''one''], node_output = [t @ ''/positions'']\<rparr>])"

definition decoder_inputs :: "value_info list" where
  "decoder_inputs =
     [\<lparr>vi_name = ''input_ids'', vi_elem_type = INT64, vi_shape = [1, 1]\<rparr>,
      \<lparr>vi_name = ''attention_mask'', vi_elem_type = INT64, vi_shape = [1, 1]\<rparr>]"

definition decoder_outputs :: "value_info list" where
  "decoder_outputs = [\<lparr>vi_name = ''logits'', vi_elem_type = FLOAT, vi_shape = [1, 1, 8]\<rparr>]"

definition decoder_graph :: "nat \<Rightarrow> model" where
  "decoder_graph n =
     \<lparr>graph_node = concat (map (layer_nodes ''zero'') [0..<n]),
      graph_input = decoder_inputs, graph_output = decoder_outputs\<rparr>"

text \<open>
  Notions for reasoning about the example graph: a node is foreign to a list of indexed
  nodes when no tensor name links them; the indexed nodes of layer \<open>k\<close>; and the match
  the Gather rule finds in layer \<open>k\<close>.
\<close>

definition foreign :: "(nat \<times> node) list \<Rightarrow> node \<Rightarrow> bool" where
  "foreign ps n \<longleftrightarrow>
     (\<forall>p\<in>set ps. (\<forall>x\<in>set (node_output n). x \<notin> set (node_input (snd p))) \<and>
                  (\<forall>x\<in>set (node_input n). x \<notin> set (node_output (snd p))))"

definition layer_block :: "string \<Rightarrow> nat \<Rightarrow> (nat \<times> node) list" where
  "layer_block z k = List.enumerate (5 * k) (layer_nodes z k)"

definition gather_match :: "nat \<Rightarrow> match_result" where
  "gather_match k = \<lparr>match_node = 5 * k + 1, match_parents = [[5 * k]],
     match_children = [[5 * k + 2, 5 * k + 3, 5 * k + 4]]\<rparr>"

text \<open>
  A small module tree for the examples: two dense layers under the root, and an
  environment in which every optional class was imported.
\<close>

definition example_net :: module where
  "example_net = Module OtherLayer []
     [(''fc1'', Module Linear [(''weight'', 0), (''bias'', 1)] []),
      (''fc2'', Module Linear [(''weight'', 2), (''bias'', 3)] [])]"

definition all_imports :: imports_env where
  "all_imports = \<lparr>qat_available = True, qat_conv3d_available = True, conv1d_available = True\<rparr>"

section \<open>Second-order layer pruner (sparseml/modifiers/obcq/utils/sgpt_wrapper.py)\<close>

text \<open>
  Tensor elements are single-precision floats in the source. They are modelled as real
  numbers: the arithmetic is exact, and there is no infinity and no NaN. Where the float
  computation would leave the finite numbers (a division by zero), the model stops with
  \<open>NonFinite\<close>, which is not a Python exception.
\<close>

subsection \<open>Tensors\<close>

type_synonym matrix = "real list list"

text \<open>A tensor: its shape and its elements in row-major order.\<close>

record tensor =
  shape :: "nat list"
  data :: "real list"

datatype sgpt_error =
  RuntimeError | Torch_IndexError | MathDomainError | RangeValueError | ZeroDivisionError
  | LinAlgError | NonFinite

text \<open>The elements \<open>f i j\<close> of an \<open>m \<times> n\<close> matrix in row-major order.\<close>

definition tabulate2 :: "nat \<Rightarrow> nat \<Rightarrow> (nat \<Rightarrow> nat \<Rightarrow> 'a) \<Rightarrow> 'a list" where
  "tabulate2 m n f = concat (map (\<lambda>i. map (f i) [0..<n]) [0..<m])"

definition unsqueeze0 :: "tensor \<Rightarrow> tensor" where
  "unsqueeze0 t = t\<lparr>shape := 1 # shape t\<rparr>"

text \<open>
  \<^verbatim>\<open>inp.reshape((-1, inp.shape[-1]))\<close>: the first dimension is inferred; with a last
  dimension of size 0 it cannot be, and torch raises.
\<close>

definition reshape_last :: "tensor \<Rightarrow> sgpt_error + tensor" where
  "reshape_last t =
     (let f = last (shape t)
      in if f = 0 then Inl RuntimeError
         else Inr (t\<lparr>shape := [prod_list (shape t) div f, f]\<rparr>))"

text \<open>
  \<^verbatim>\<open>Tensor.t()\<close>: the transpose of a 2-D tensor; tensors of fewer dimensions are returned
  as they are, tensors of more dimensions are refused.
\<close>

definition tensor_t :: "tensor \<Rightarrow> sgpt_error + tensor" where
  "tensor_t x =
     (case shape x of
        [] \<Rightarrow> Inr x
      | [_] \<Rightarrow> Inr x
      | [r, c] \<Rightarrow> Inr \<lparr>shape = [c, r], data = tabulate2 c r (\<lambda>j i. data x ! (i * c + j))\<rparr>
      | _ \<Rightarrow> Inl RuntimeError)"

text \<open>
  \<^verbatim>\<open>Tensor.matmul\<close> on the operands \<^verbatim>\<open>add_batch\<close> gives it: two vectors (the dot product, a
  tensor without dimensions) or two matrices.
\<close>

definition matmul :: "tensor \<Rightarrow> tensor \<Rightarrow> sgpt_error + tensor" where
  "matmul a b =
     (case (shape a, shape b) of
        ([n], [n']) \<Rightarrow>
          if n = n' then Inr \<lparr>shape = [], data = [\<Sum>s<n. data a ! s * data b ! s]\<rparr>
          else Inl RuntimeError
      | ([m, k], [k', n]) \<Rightarrow>
          if k = k'
          then Inr \<lparr>shape = [m, n],
                    data = tabulate2 m n (\<lambda>i j. \<Sum>s<k. data a ! (i * k + s) * data b ! (s * n + j))\<rparr>
          else Inl RuntimeError
      | _ \<Rightarrow> Inl RuntimeError)"

text \<open>
  \<^verbatim>\<open>self.H += M\<close> for the \<open>c \<times> c\<close> accumulator: \<open>M\<close> is broadcast to the shape of \<open>H\<close>, so
  each of its dimensions is \<open>c\<close> or 1, or it has no dimension at all.
\<close>

definition iadd_H :: "nat \<Rightarrow> matrix \<Rightarrow> tensor \<Rightarrow> sgpt_error + matrix" where
  "iadd_H c Hm M =
     (case shape M of
        [] \<Rightarrow> Inr (map (map (\<lambda>h. h + data M ! 0)) Hm)
      | [a, b] \<Rightarrow>
          if (a = c \<or> a = 1) \<and> (b = c \<or> b = 1)
          then Inr (map (\<lambda>i. map (\<lambda>j. Hm ! i ! j +
                       data M ! ((if a = 1 then 0 else i) * b + (if b = 1 then 0 else j)))
                     [0..<c]) [0..<c])
          else Inl RuntimeError
      | _ \<Rightarrow> Inl RuntimeError)"

subsection \<open>SGPTModuleWrapper\<close>

datatype layer_class = nn_Linear | transformers_Conv1D | nn_Conv2d | nn_Other

text \<open>
  The wrapper's state. \<open>layer_weight\<close> is \<^verbatim>\<open>layer.weight.data\<close> as the matrix \<^verbatim>\<open>W\<close> the
  methods work on: the weight itself for \<^verbatim>\<open>nn.Linear\<close>, \<^verbatim>\<open>flatten(1)\<close> of it for
  \<^verbatim>\<open>nn.Conv2d\<close>, the transpose for \<^verbatim>\<open>transformers.Conv1D\<close> (the methods undo the
  rearrangement when they store the result). \<open>weight_fake_quant\<close> is the quantise and
  dequantise round trip of the layer's \<^verbatim>\<open>weight_fake_quant\<close> (per row and value), when
  the layer has one. \<open>nsamples\<close> is a 32-bit integer tensor.
\<close>

record wrapper =
  layer_class :: layer_class
  layer_weight :: matrix
  weight_fake_quant :: "(nat \<Rightarrow> real \<Rightarrow> real) option"
  rows :: nat
  columns :: nat
  H :: matrix
  nsamples :: "32 word"

definition is_linear_like :: "layer_class \<Rightarrow> bool" where
  "is_linear_like c = (c = nn_Linear \<or> c = transformers_Conv1D)"

text \<open>
  The first lines of \<^verbatim>\<open>add_batch\<close>: a 2-D input gets a leading dimension of size 1,
  \<^verbatim>\<open>tmp\<close> is the size of the first dimension, and for a linear layer a 3-D input is
  flattened to 2-D and the input is transposed (features first).
\<close>

definition batch_input :: "layer_class \<Rightarrow> tensor \<Rightarrow> sgpt_error + nat \<times> tensor" where
  "batch_input cls inp0 =
     (let inp = (if length (shape inp0) = 2 then unsqueeze0 inp0 else inp0)
      in case shape inp of
           [] \<Rightarrow> Inl Torch_IndexError
         | tmp # _ \<Rightarrow>
             if is_linear_like cls then
               (case (if length (shape inp) = 3 then reshape_last inp else Inr inp) of
                  Inl e \<Rightarrow> Inl e
                | Inr r \<Rightarrow> (case tensor_t r of Inl e \<Rightarrow> Inl e | Inr x \<Rightarrow> Inr (tmp, x)))
             else Inr (tmp, inp))"

text \<open>\<^verbatim>\<open>inp.matmul(inp.t())\<close>.\<close>

definition outer_product :: "tensor \<Rightarrow> sgpt_error + tensor" where
  "outer_product y = (case tensor_t y of Inl e \<Rightarrow> Inl e | Inr yt \<Rightarrow> matmul y yt)"

text \<open>
  The result is the exception raised, if any, and the wrapper as the call leaves it: an
  exception after \<^verbatim>\<open>self.H *= ...\<close> and \<^verbatim>\<open>self.nsamples += tmp\<close> leaves both updated.
  \<^verbatim>\<open>math.sqrt\<close> raises on a negative argument.
\<close>

definition add_batch :: "wrapper \<Rightarrow> tensor \<Rightarrow> sgpt_error option \<times> wrapper" where
  "add_batch st inp0 =
     (case batch_input (layer_class st) inp0 of
        Inl e \<Rightarrow> (Some e, st)
      | Inr (tmp, x) \<Rightarrow>
          let n = nsamples st; n' = n + of_nat tmp
          in if sint n' = 0 then (Some NonFinite, st)
             else
               let st1 = st\<lparr>H := map (map (\<lambda>h. h * (real_of_int (sint n) / real_of_int (sint n')))) (H st),
                             nsamples := n'\<rparr>
               in if sint n' < 0 then (Some MathDomainError, st1)
                  else
                    (case outer_product
                            (x\<lparr>data := map (\<lambda>v. sqrt (2 / real_of_int (sint n')) * v) (data x)\<rparr>) of
                       Inl e \<Rightarrow> (Some e, st1)
                     | Inr M \<Rightarrow>
                         (case iadd_H (columns st) (H st1) M of
                            Inl e \<Rightarrow> (Some e, st1)
                          | Inr H' \<Rightarrow> (None, st1\<lparr>H := H'\<rparr>))))"

subsection \<open>fasterprune\<close>

text \<open>The \<open>r \<times> c\<close> matrix with the entries \<open>f i j\<close>.\<close>

definition mk_matrix :: "nat \<Rightarrow> nat \<Rightarrow> (nat \<Rightarrow> nat \<Rightarrow> 'a) \<Rightarrow> 'a list list" where
  "mk_matrix r c f = map (\<lambda>i. map (f i) [0..<c]) [0..<r]"

definition diag_of :: "nat \<Rightarrow> matrix \<Rightarrow> real list" where
  "diag_of c A = map (\<lambda>i. A ! i ! i) [0..<c]"

text \<open>
  \<^verbatim>\<open>dead = torch.diag(self.H) == 0; self.H[dead, dead] = 1; W[:, dead] = 0\<close>.
\<close>

definition neutralize_dead :: "nat \<Rightarrow> nat \<Rightarrow> matrix \<Rightarrow> matrix \<Rightarrow> matrix \<times> matrix" where
  "neutralize_dead r c Hm W =
     (let dead = map (\<lambda>d. d = 0) (diag_of c Hm)
      in (mk_matrix c c (\<lambda>i j. if i = j \<and> dead ! i then 1 else Hm ! i ! j),
          mk_matrix r c (\<lambda>a j. if dead ! j then 0 else W ! a ! j)))"

text \<open>
  \<^verbatim>\<open>damp = percdamp * torch.mean(torch.diag(self.H)); self.H[diag, diag] += damp\<close>.
\<close>

definition add_damp :: "nat \<Rightarrow> real \<Rightarrow> matrix \<Rightarrow> matrix" where
  "add_damp c percdamp Hm =
     (let damp = percdamp * (sum_list (diag_of c Hm) / real c)
      in mk_matrix c c (\<lambda>i j. if i = j then Hm ! i ! j + damp else Hm ! i ! j))"

text \<open>
  The three factorisation calls of torch, over the reals. \<^verbatim>\<open>torch.linalg.cholesky\<close> gives
  the lower-triangular factor \<open>L\<close> of \<open>A = L L\<^sup>T\<close>, row by row, and fails when a pivot is
  not positive; \<^verbatim>\<open>torch.cholesky_inverse\<close> gives the inverse of \<open>L L\<^sup>T\<close> from \<open>L\<close>; with
  \<^verbatim>\<open>upper=True\<close> the factor is returned transposed.
\<close>

definition dot :: "real list \<Rightarrow> real list \<Rightarrow> real" where
  "dot xs ys = sum_list (map2 (*) xs ys)"

definition chol_row :: "matrix \<Rightarrow> matrix \<Rightarrow> nat \<Rightarrow> real list" where
  "chol_row A L i =
     fold (\<lambda>j acc. acc @ [(A ! i ! j - dot acc (take j (L ! j))) / (L ! j ! j)]) [0..<i] []"

definition cholesky :: "nat \<Rightarrow> matrix \<Rightarrow> matrix option" where
  "cholesky c A =
     fold (\<lambda>i Lo. case Lo of
                     None \<Rightarrow> None
                   | Some L \<Rightarrow>
                       (let p = chol_row A L i; v = A ! i ! i - dot p p
                        in if v \<le> 0 then None
                           else Some (L @ [p @ sqrt v # replicate (c - Suc i) 0])))
       [0..<c] (Some [])"

definition lower_inverse :: "nat \<Rightarrow> matrix \<Rightarrow> matrix" where
  "lower_inverse c L =
     fold (\<lambda>i X. X @ [map (\<lambda>j. ((if i = j then 1 else 0)
                                  - sum_list (map (\<lambda>k. L ! i ! k * X ! k ! j) [0..<i]))
                                 / (L ! i ! i)) [0..<c]])
       [0..<c] []"

definition cholesky_inverse :: "nat \<Rightarrow> matrix \<Rightarrow> matrix" where
  "cholesky_inverse c L =
     (let X = lower_inverse c L
      in mk_matrix c c (\<lambda>i j. sum_list (map (\<lambda>k. X ! k ! i * X ! k ! j) [0..<c])))"

definition cholesky_upper :: "nat \<Rightarrow> matrix \<Rightarrow> matrix option" where
  "cholesky_upper c B = map_option (\<lambda>L. mk_matrix c c (\<lambda>i j. L ! j ! i)) (cholesky c B)"

text \<open>A loop whose body can raise: the first error ends it.\<close>

fun fold_err :: "('a \<Rightarrow> 's \<Rightarrow> 'e + 's) \<Rightarrow> 'a list \<Rightarrow> 's \<Rightarrow> 'e + 's" where
  "fold_err f [] s = Inr s"
| "fold_err f (x # xs) s = (case f x s of Inl e \<Rightarrow> Inl e | Inr s' \<Rightarrow> fold_err f xs s')"

text \<open>
  \<^verbatim>\<open>torch.topk(tmp, k, dim=1, largest=False)[1]\<close> for one row: the positions of the \<open>k\<close>
  smallest values. Which of several equal values torch picks is not specified; the
  model takes the leftmost.
\<close>

definition topk_smallest :: "nat \<Rightarrow> real list \<Rightarrow> nat list" where
  "topk_smallest k xs = take k (map snd (sort_key fst (zip xs [0..<length xs])))"

text \<open>The state of the loop over the columns of one block.\<close>

record block_state =
  W1 :: matrix
  Q1 :: matrix
  Err1 :: matrix
  mask1 :: "bool list list"

text \<open>
  One pass of \<^verbatim>\<open>for i in range(count)\<close>, for the block with \<open>r\<close> rows and \<open>n\<close> columns.
  \<^verbatim>\<open>i % prunem\<close> raises when \<^verbatim>\<open>prunem\<close> is 0; \<^verbatim>\<open>topk\<close> raises when the group has fewer
  than \<^verbatim>\<open>prunen\<close> columns. \<^verbatim>\<open>Losses1\<close> only feeds the log line and is left out.
\<close>

definition col_step ::
  "(nat \<Rightarrow> real \<Rightarrow> real) option \<Rightarrow> nat \<Rightarrow> nat \<Rightarrow> nat \<Rightarrow> nat \<Rightarrow> matrix \<Rightarrow> nat \<Rightarrow>
   block_state \<Rightarrow> sgpt_error + block_state" where
  "col_step fq prunen prunem r n Hinv1 i s =
     (if prunen \<noteq> 0 \<and> prunem = 0 then Inl ZeroDivisionError
      else
        let g = min prunem (n - i);
            grp = (prunen \<noteq> 0 \<and> i mod prunem = 0)
        in if grp \<and> g < prunen then Inl RuntimeError
           else
             let mask =
                   (if grp
                    then mk_matrix r n (\<lambda>a j. mask1 s ! a ! j \<or>
                           (i \<le> j \<and> j - i \<in> set (topk_smallest prunen
                              (map (\<lambda>t. (W1 s ! a ! (i + t))\<^sup>2 / (Hinv1 ! (i + t) ! (i + t))\<^sup>2)
                                 [0..<g]))))
                    else mask1 s);
                 q = (\<lambda>a. let v = (if mask ! a ! i then 0 else W1 s ! a ! i)
                          in case fq of None \<Rightarrow> v | Some f \<Rightarrow> f a v);
                 err1 = (\<lambda>a. (W1 s ! a ! i - q a) / (Hinv1 ! i ! i))
             in Inr \<lparr>W1 = mk_matrix r n (\<lambda>a j. if i \<le> j then W1 s ! a ! j - err1 a * Hinv1 ! i ! j
                                               else W1 s ! a ! j),
                     Q1 = mk_matrix r n (\<lambda>a j. if j = i then q a else Q1 s ! a ! j),
                     Err1 = mk_matrix r n (\<lambda>a j. if j = i then err1 a else Err1 s ! a ! j),
                     mask1 = mask\<rparr>)"

text \<open>
  \<^verbatim>\<open>int(tmp.numel() * sparsity)\<close> truncates towards zero; as an index into the sorted
  scores a negative value counts from the end, and a value out of range raises.
\<close>

definition threshold_index :: "nat \<Rightarrow> real \<Rightarrow> sgpt_error + nat" where
  "threshold_index numel sparsity =
     (let x = real numel * sparsity;
          k = (if 0 \<le> x then \<lfloor>x\<rfloor> else \<lceil>x\<rceil>)
      in if 0 \<le> k \<and> k < int numel then Inr (nat k)
         else if - int numel \<le> k \<and> k < 0 then Inr (nat (int numel + k))
         else Inl Torch_IndexError)"

text \<open>
  The mask a block starts with: for unstructured pruning the scores not above the
  threshold (\<^verbatim>\<open>mask\<close> is never assigned, so the branch \<^verbatim>\<open>mask is not None\<close> is dead); for
  N:M pruning all \<^verbatim>\<open>False\<close>.
\<close>

definition initial_mask ::
  "nat \<Rightarrow> real \<Rightarrow> nat \<Rightarrow> nat \<Rightarrow> matrix \<Rightarrow> matrix \<Rightarrow> sgpt_error + bool list list" where
  "initial_mask prunen sparsity r n Wb Hinv1 =
     (if prunen = 0 then
        (let tmp = mk_matrix r n (\<lambda>a j. (Wb ! a ! j)\<^sup>2 / (Hinv1 ! j ! j)\<^sup>2)
         in case threshold_index (r * n) sparsity of
              Inl e \<Rightarrow> Inl e
            | Inr k \<Rightarrow>
                Inr (let thresh = sort (concat tmp) ! k
                     in mk_matrix r n (\<lambda>a j. tmp ! a ! j \<le> thresh)))
      else Inr (mk_matrix r n (\<lambda>a j. False)))"

text \<open>
  One pass of \<^verbatim>\<open>for i1 in range(0, self.columns, blocksize)\<close>: the slices
  \<^verbatim>\<open>W[:, i1:i2]\<close> and \<^verbatim>\<open>Hinv[i1:i2, i1:i2]\<close>, the state the column loop starts from, and
  the two assignments to \<^verbatim>\<open>W\<close> after it.
\<close>

definition block_W1 :: "nat \<Rightarrow> nat \<Rightarrow> nat \<Rightarrow> matrix \<Rightarrow> matrix" where
  "block_W1 r cnt i1 W = mk_matrix r cnt (\<lambda>a j. W ! a ! (i1 + j))"

definition block_Hinv1 :: "nat \<Rightarrow> nat \<Rightarrow> matrix \<Rightarrow> matrix" where
  "block_Hinv1 cnt i1 Hinv = mk_matrix cnt cnt (\<lambda>i j. Hinv ! (i1 + i) ! (i1 + j))"

definition block_init :: "nat \<Rightarrow> nat \<Rightarrow> matrix \<Rightarrow> bool list list \<Rightarrow> block_state" where
  "block_init r cnt Wb m =
     \<lparr>W1 = Wb, Q1 = mk_matrix r cnt (\<lambda>a j. 0), Err1 = mk_matrix r cnt (\<lambda>a j. 0),
      mask1 = m\<rparr>"

definition block_store ::
  "nat \<Rightarrow> nat \<Rightarrow> nat \<Rightarrow> nat \<Rightarrow> matrix \<Rightarrow> matrix \<Rightarrow> block_state \<Rightarrow> matrix" where
  "block_store r c i1 i2 Hinv W s =
     mk_matrix r c (\<lambda>a j.
       if j < i1 then W ! a ! j
       else if j < i2 then Q1 s ! a ! (j - i1)
       else W ! a ! j - sum_list (map (\<lambda>t. Err1 s ! a ! t * Hinv ! (i1 + t) ! j) [0..<i2 - i1]))"

definition block_step ::
  "(nat \<Rightarrow> real \<Rightarrow> real) option \<Rightarrow> real \<Rightarrow> nat \<Rightarrow> nat \<Rightarrow> nat \<Rightarrow> nat \<Rightarrow> nat \<Rightarrow> matrix \<Rightarrow>
   nat \<Rightarrow> matrix \<Rightarrow> sgpt_error + matrix" where
  "block_step fq sparsity prunen prunem blocksize r c Hinv i1 W =
     (let i2 = min (i1 + blocksize) c;
          cnt = i2 - i1;
          Wb = block_W1 r cnt i1 W;
          Hinv1 = block_Hinv1 cnt i1 Hinv
      in case initial_mask prunen sparsity r cnt Wb Hinv1 of
           Inl e \<Rightarrow> Inl e
         | Inr m \<Rightarrow>
             (case fold_err (col_step fq prunen prunem r cnt Hinv1) [0..<cnt]
                     (block_init r cnt Wb m) of
                Inl e \<Rightarrow> Inl e
              | Inr s \<Rightarrow> Inr (block_store r c i1 i2 Hinv W s)))"

text \<open>\<^verbatim>\<open>range(0, columns, blocksize)\<close> for a positive step.\<close>

definition block_starts :: "nat \<Rightarrow> nat \<Rightarrow> nat list" where
  "block_starts c blocksize = map (\<lambda>k. k * blocksize) [0..<(c + blocksize - 1) div blocksize]"

text \<open>
  \<^verbatim>\<open>fasterprune\<close> from the first factorisation on, given the dampened accumulator \<open>H2\<close>
  and the weights \<open>W0\<close> with the dead columns zeroed. \<^verbatim>\<open>prunen\<close>, \<^verbatim>\<open>prunem\<close> and
  \<^verbatim>\<open>blocksize\<close> are counts (natural numbers); \<^verbatim>\<open>range\<close> raises on a step of 0. The result
  is the exception raised, if any, and the wrapper as the call leaves it: \<^verbatim>\<open>self.H\<close> is
  overwritten step by step, the layer's weight only at the very end.
\<close>

definition factor_and_prune ::
  "wrapper \<Rightarrow> real \<Rightarrow> nat \<Rightarrow> nat \<Rightarrow> nat \<Rightarrow> matrix \<Rightarrow> matrix \<Rightarrow> sgpt_error option \<times> wrapper"
  where
  "factor_and_prune st sparsity prunen prunem blocksize H2 W0 =
     (let r = rows st; c = columns st
      in case cholesky c H2 of
           None \<Rightarrow> (Some LinAlgError, st\<lparr>H := H2\<rparr>)
         | Some L \<Rightarrow>
             (let B = cholesky_inverse c L
              in case cholesky_upper c B of
                   None \<Rightarrow> (Some LinAlgError, st\<lparr>H := B\<rparr>)
                 | Some Hinv \<Rightarrow>
                     if blocksize = 0 then (Some RangeValueError, st\<lparr>H := Hinv\<rparr>)
                     else
                       (case fold_err
                               (block_step (weight_fake_quant st) sparsity prunen prunem
                                  blocksize r c Hinv)
                               (block_starts c blocksize) W0 of
                          Inl e \<Rightarrow> (Some e, st\<lparr>H := Hinv\<rparr>)
                        | Inr W' \<Rightarrow> (None, st\<lparr>H := Hinv, layer_weight := W'\<rparr>))))"

definition fasterprune ::
  "wrapper \<Rightarrow> real \<Rightarrow> nat \<Rightarrow> nat \<Rightarrow> nat \<Rightarrow> real \<Rightarrow> sgpt_error option \<times> wrapper" where
  "fasterprune st sparsity prunen prunem blocksize percdamp =
     (case neutralize_dead (rows st) (columns st) (H st) (layer_weight st) of
        (H1, W0) \<Rightarrow>
          factor_and_prune st sparsity prunen prunem blocksize
            (add_damp (columns st) percdamp H1) W0)"

text \<open>A \<^verbatim>\<open>weight_fake_quant\<close> round trip that maps 0 to 0, or none at all.\<close>

definition keeps_zero :: "(nat \<Rightarrow> real \<Rightarrow> real) option \<Rightarrow> bool" where
  "keeps_zero fq = (case fq of None \<Rightarrow> True | Some f \<Rightarrow> \<forall>a. f a 0 = 0)"

text \<open>
  The invariant of the column loop before column \<open>i\<close>: a masked weight of a column
  already processed is 0 in \<open>Q1\<close>; every group that has started has \<open>prunen\<close> masked
  columns; the mask \<open>m0\<close> the block started with is still set.
\<close>

definition col_inv ::
  "nat \<Rightarrow> nat \<Rightarrow> nat \<Rightarrow> nat \<Rightarrow> bool list list \<Rightarrow> nat \<Rightarrow> block_state \<Rightarrow> bool" where
  "col_inv prunen prunem r n m0 i s \<longleftrightarrow>
     (\<forall>a<r. \<forall>j<i. mask1 s ! a ! j \<longrightarrow> Q1 s ! a ! j = 0) \<and>
     (prunen \<noteq> 0 \<longrightarrow>
        (\<forall>a<r. \<forall>g<i. g mod prunem = 0 \<and> g + prunem \<le> n \<longrightarrow>
           prunen \<le> length (filter (\<lambda>j. mask1 s ! a ! j) [g..<g + prunem]))) \<and>
     (\<forall>a<r. \<forall>j<n. m0 ! a ! j \<longrightarrow> mask1 s ! a ! j)"

text \<open>The number of zero entries in the columns \<open>lo..<hi\<close> of the first \<open>r\<close> rows.\<close>

definition zeros_between :: "nat \<Rightarrow> nat \<Rightarrow> nat \<Rightarrow> matrix \<Rightarrow> nat" where
  "zeros_between r lo hi W =
     sum_list (map (\<lambda>a. length (filter (\<lambda>j. W ! a ! j = 0) [lo..<hi])) [0..<r])"

subsection \<open>Example layers\<close>

text \<open>
  A linear layer with one row and four input features as \<^verbatim>\<open>__init__\<close> leaves it
  (\<open>fresh_layer\<close>); the same layer with two samples accumulated and the identity as
  statistic (\<open>ramp_layer\<close>); that layer with four equal weights (\<open>tied_layer\<close>) and with
  three weights already zero (\<open>sparse_layer\<close>); a layer with two input features of which
  the first is dead; a convolution with one output channel, one input channel and a
  2 \<times> 2 kernel as \<^verbatim>\<open>__init__\<close> leaves it (\<open>conv_layer\<close>); a batch of six samples of one token
  each for the linear layers, and a batch of two 2 \<times> 2 images for the convolution.
\<close>

definition ident4 :: matrix where
  "ident4 = [[1, 0, 0, 0], [0, 1, 0, 0], [0, 0, 1, 0], [0, 0, 0, 1]]"

definition zeros4 :: matrix where
  "zeros4 = [[0, 0, 0, 0], [0, 0, 0, 0], [0, 0, 0, 0], [0, 0, 0, 0]]"

definition fresh_layer :: wrapper where
  "fresh_layer = \<lparr>layer_class = nn_Linear, layer_weight = [[4, 1, 3, 2]],
     weight_fake_quant = None, rows = 1, columns = 4, H = zeros4, nsamples = 0\<rparr>"

definition ramp_layer :: wrapper where
  "ramp_layer = fresh_layer\<lparr>H := ident4, nsamples := 2\<rparr>"

definition tied_layer :: wrapper where
  "tied_layer = ramp_layer\<lparr>layer_weight := [[1, 1, 1, 1]]\<rparr>"

definition sparse_layer :: wrapper where
  "sparse_layer = ramp_layer\<lparr>layer_weight := [[0, 0, 0, 5]]\<rparr>"

definition half_dead_layer :: wrapper where
  "half_dead_layer = \<lparr>layer_class = nn_Linear, layer_weight = [[1, 2], [3, 4]],
     weight_fake_quant = None, rows = 2, columns = 2, H = [[0, 0], [0, 4]], nsamples = 1\<rparr>"





section \<open>Properties of the resolver\<close>

lemma star_word_Cons_iff: "star_word a (c # w) \<longleftrightarrow> atom_ok a c \<and> star_word a w"
  by (auto elim: star_word.cases intro: star_word.intros)

lemma items_lang_StarI:
  "star_word a u \<Longrightarrow> w \<in> items_lang r \<Longrightarrow> u @ w \<in> items_lang (Star a # r)"
  by auto

lemma items_match_iff:
  "items_match its s \<longleftrightarrow> (\<exists>u v. s = u @ v \<and> u \<in> items_lang its)"
proof (induction its s rule: items_match.induct)
  case (1 s)
  show ?case by simp
next
  case (2 a r)
  show ?case by simp
next
  case (3 a r c cs)
  show ?case by (auto simp: 3 Cons_eq_append_conv)
next
  case (4 a r)
  show ?case by (auto simp: 4 intro: star_word.intros)
next
  case (5 a r c cs)
  show ?case
  proof
    assume "items_match (Star a # r) (c # cs)"
    then consider "atom_ok a c" "items_match (Star a # r) cs" | "items_match r (c # cs)"
      by auto
    then show "\<exists>u v. c # cs = u @ v \<and> u \<in> items_lang (Star a # r)"
    proof cases
      case 1
      then obtain u v where uv: "cs = u @ v" "u \<in> items_lang (Star a # r)"
        using 5 by blast
      then obtain x w where xw: "u = x @ w" "star_word a x" "w \<in> items_lang r" by auto
      have "star_word a (c # x)" using 1 xw by (simp add: star_word_Cons_iff)
      then have "(c # x) @ w \<in> items_lang (Star a # r)" using xw by (intro items_lang_StarI)
      then show ?thesis using uv xw by (metis append_Cons append_assoc)
    next
      case 2
      then obtain u v where uv: "c # cs = u @ v" "u \<in> items_lang r" using 5 by blast
      then have "[] @ u \<in> items_lang (Star a # r)" by (intro items_lang_StarI star_nil)
      then show ?thesis using uv by auto
    qed
  next
    assume "\<exists>u v. c # cs = u @ v \<and> u \<in> items_lang (Star a # r)"
    then obtain x w v where e: "c # cs = (x @ w) @ v" "star_word a x" "w \<in> items_lang r"
      by auto
    show "items_match (Star a # r) (c # cs)"
    proof (cases x)
      case Nil
      then have "items_match r (c # cs)" using e 5 by auto
      then show ?thesis by simp
    next
      case (Cons y ys)
      then have "y = c" "atom_ok a c" "star_word a ys" "cs = (ys @ w) @ v"
        using e by (auto simp: star_word_Cons_iff)
      moreover have "ys @ w \<in> items_lang (Star a # r)" using e calculation by (intro items_lang_StarI)
      ultimately have "items_match (Star a # r) cs" using 5 by blast
      then show ?thesis using \<open>atom_ok a c\<close> by simp
    qed
  qed
qed

lemma re_match_iff:
  "re_parse pattern = Some its \<Longrightarrow>
   re_match pattern s \<longleftrightarrow> (\<exists>u. prefix u s \<and> u \<in> items_lang its)"
  by (auto simp: re_match_def items_match_iff prefix_def)

text \<open>
  Claim C10. A target \<^verbatim>\<open>re:\<close>\<open>pattern\<close> matches a layer name exactly when the pattern
  matches some prefix of the name (the semantics of \<^verbatim>\<open>re.match\<close>): the rest of the name is
  free. Stated for the patterns of the modelled fragment.
\<close>

theorem match_targets_regex_prefix:
  assumes "re_parse pattern = Some its"
  shows "fst (match_targets s (Str (''re:'' @ pattern))) \<longleftrightarrow>
         (\<exists>u. prefix u s \<and> u \<in> items_lang its)"
  using re_match_iff[OF assms] by (simp add: match_targets_def as_list_def)

theorem match_targets_regex_prefix_witness:
  "re_parse ''foo'' = Some [Once (Lit CHR ''f''), Once (Lit CHR ''o''), Once (Lit CHR ''o'')] \<and>
   match_targets ''foobar.baz'' (Str ''re:foo'') = (True, 0) \<and>
   (\<exists>u. prefix u ''foobar.baz'' \<and>
        u \<in> items_lang [Once (Lit CHR ''f''), Once (Lit CHR ''o''), Once (Lit CHR ''o'')]) \<and>
   ''foobar.baz'' \<notin> items_lang [Once (Lit CHR ''f''), Once (Lit CHR ''o''), Once (Lit CHR ''o'')]"
proof -
  have p: "re_parse ''foo'' = Some [Once (Lit CHR ''f''), Once (Lit CHR ''o''), Once (Lit CHR ''o'')]"
    by (simp add: re_parse.simps re_meta_def)
  have m: "match_targets ''foobar.baz'' (Str ''re:foo'') = (True, 0)"
    by (simp add: match_targets_def as_list_def re_match_def re_parse.simps re_meta_def)
  have "fst (match_targets ''foobar.baz'' (Str (''re:'' @ ''foo'')))" using m by simp
  then have e: "\<exists>u. prefix u ''foobar.baz'' \<and>
        u \<in> items_lang [Once (Lit CHR ''f''), Once (Lit CHR ''o''), Once (Lit CHR ''o'')]"
    using match_targets_regex_prefix[OF p, of "''foobar.baz''"] by blast
  have n: "''foobar.baz'' \<notin> items_lang [Once (Lit CHR ''f''), Once (Lit CHR ''o''), Once (Lit CHR ''o'')]"
    by simp
  show ?thesis using p m e n by blast
qed

text \<open>
  Claim C8. With the targets \<^verbatim>\<open>["re:fc", "fc1"]\<close> on a tree that has the layers \<^verbatim>\<open>fc1\<close> and
  \<^verbatim>\<open>fc2\<close>, every target matches a layer, yet the resolution raises the error naming
  \<^verbatim>\<open>fc1\<close>: only the first target that matches a name is marked as found.
\<close>

theorem match_layers_params_shadowed_target:
  "match_layers_params all_imports (Lst [''re:fc'', ''fc1'']) example_net False
     = Inl (ValueError [''fc1'']) \<and>
   ''fc1'' \<in> fst ` set (named_modules [] example_net) \<and>
   match_layers_params all_imports (Lst [''fc1'']) example_net False
     = Inr [(''fc1'', Layer (Module Linear [(''weight'', 0), (''bias'', 1)] []))]"
  by (simp add: match_layers_params_def example_net_def as_list_def match_targets_def
      re_match_def re_parse.simps re_meta_def ALL_TARGET_def ALL_PRUNABLE_TARGET_def
      ALL_QUANTIZABLE_TARGET_def)

section \<open>Properties of the KV-cache transform\<close>

lemma node_children_frame:
  "foreign P n \<Longrightarrow> foreign S n \<Longrightarrow> node_children (P @ M @ S) n = node_children M n"
  unfolding node_children_def foreign_def by (auto simp: filter_empty_conv)

lemma node_parents_frame:
  "foreign P n \<Longrightarrow> foreign S n \<Longrightarrow> node_parents (P @ M @ S) n = node_parents M n"
  unfolding node_parents_def foreign_def
  by (intro arg_cong[where f=concat] map_cong refl) (auto simp: filter_empty_conv)

lemma walk_children_frame:
  assumes "\<forall>c\<in>set M. foreign P (snd c) \<and> foreign S (snd c)"
  shows "c \<in> set M \<Longrightarrow>
    walk_chain (node_children (P @ M @ S)) c chain = walk_chain (node_children M) c chain"
proof (induction chain arbitrary: c)
  case Nil
  show ?case by simp
next
  case (Cons t rest)
  have eq: "node_children (P @ M @ S) (snd c) = node_children M (snd c)"
    using assms Cons.prems by (simp add: node_children_frame)
  have sub: "set (node_children M (snd c)) \<subseteq> set M"
    by (auto simp: node_children_def)
  show ?case
  proof (cases "node_children M (snd c)")
    case Nil
    then show ?thesis using eq by simp
  next
    case (Cons c' cs)
    then have "c' \<in> set M" using sub by auto
    then show ?thesis using eq Cons Cons.IH[of c'] by (cases cs) simp_all
  qed
qed

lemma walk_parents_frame:
  assumes "\<forall>c\<in>set M. foreign P (snd c) \<and> foreign S (snd c)"
  shows "c \<in> set M \<Longrightarrow>
    walk_chain (node_parents (P @ M @ S)) c chain = walk_chain (node_parents M) c chain"
proof (induction chain arbitrary: c)
  case Nil
  show ?case by simp
next
  case (Cons t rest)
  have eq: "node_parents (P @ M @ S) (snd c) = node_parents M (snd c)"
    using assms Cons.prems by (simp add: node_parents_frame)
  have sub: "set (node_parents M (snd c)) \<subseteq> set M"
    by (auto simp: node_parents_def)
  show ?case
  proof (cases "node_parents M (snd c)")
    case Nil
    then show ?thesis using eq by simp
  next
    case (Cons c' cs)
    then have "c' \<in> set M" using sub by auto
    then show ?thesis using eq Cons Cons.IH[of c'] by (cases cs) simp_all
  qed
qed

lemma map2_walk_cong:
  "(\<And>c. c \<in> set cs \<Longrightarrow> f c = g c) \<Longrightarrow> map2 f cs ops = map2 g cs ops"
  by (rule map_cong[OF refl]) (auto dest: set_zip_leftD)

lemma match_at_frame:
  assumes iso: "\<forall>c\<in>set M. foreign P (snd c) \<and> foreign S (snd c)" and c: "c \<in> set M"
  shows "match_at (P @ M @ S) ty po co c = match_at M ty po co c"
proof -
  have p: "node_parents (P @ M @ S) (snd c) = node_parents M (snd c)"
    and ch: "node_children (P @ M @ S) (snd c) = node_children M (snd c)"
    using iso c by (simp_all add: node_parents_frame node_children_frame)
  have subp: "set (node_parents M (snd c)) \<subseteq> set M"
    and subc: "set (node_children M (snd c)) \<subseteq> set M"
    by (auto simp: node_parents_def node_children_def)
  have wp: "map2 (walk_chain (node_parents (P @ M @ S))) (node_parents M (snd c)) po
          = map2 (walk_chain (node_parents M)) (node_parents M (snd c)) po"
    by (rule map2_walk_cong) (use subp iso in \<open>auto intro!: ext walk_parents_frame\<close>)
  have wc: "map2 (walk_chain (node_children (P @ M @ S))) (node_children M (snd c)) co
          = map2 (walk_chain (node_children M)) (node_children M (snd c)) co"
    by (rule map2_walk_cong) (use subc iso in \<open>auto intro!: ext walk_children_frame\<close>)
  show ?thesis
    unfolding match_at_def p ch Let_def wp wc ..
qed

lemma layer_match:
  assumes "z = ''zero'' \<or> z = ''cache_length''"
  shows "List.map_filter
     (match_at (List.enumerate b (layer_nodes z k)) ''Gather'' [[''Shape'']]
        [[''Add'', ''Cast'', ''Range'']])
     (List.enumerate b (layer_nodes z k))
   = [\<lparr>match_node = Suc b, match_parents = [[b]],
       match_children = [[Suc (Suc b), Suc (Suc (Suc b)), Suc (Suc (Suc (Suc b)))]]\<rparr>]"
  using assms
  by (auto simp: layer_nodes_def layer_tag_def match_at_def node_parents_def node_children_def
      List.map_filter_simps Let_def)


lemma length_layer_nodes: "length (layer_nodes z k) = 5"
  by (simp add: layer_nodes_def Let_def)

lemma length_concat_layers: "length (concat (map (layer_nodes z) [0..<n])) = 5 * n"
  by (induction n) (simp_all add: length_layer_nodes)

lemma indexed_layers:
  "indexed (concat (map (layer_nodes z) [0..<n])) = concat (map (layer_block z) [0..<n])"
  by (induction n)
    (simp_all add: indexed_def enumerate_append_eq length_concat_layers layer_block_def)

lemma layers_foreign:
  assumes "j \<noteq> k" "j < 100" "k < 100" "z = ''zero'' \<or> z = ''cache_length''"
    and "c \<in> set (layer_block z k)"
  shows "foreign (layer_block z j) (snd c)"
  using assms
  by (auto simp: foreign_def layer_block_def layer_nodes_def layer_tag_def Let_def)

lemma foreign_concat:
  "(\<And>ps. ps \<in> set pss \<Longrightarrow> foreign ps n) \<Longrightarrow> foreign (concat pss) n"
  by (auto simp: foreign_def)

lemma map_filter_concat:
  "List.map_filter f (concat xss) = concat (map (List.map_filter f) xss)"
  by (induction xss) (simp_all add: List.map_filter_def)

lemma map_filter_cong_set:
  "(\<And>x. x \<in> set xs \<Longrightarrow> f x = g x) \<Longrightarrow> List.map_filter f xs = List.map_filter g xs"
proof -
  assume h: "\<And>x. x \<in> set xs \<Longrightarrow> f x = g x"
  have "filter (\<lambda>x. f x \<noteq> None) xs = filter (\<lambda>x. g x \<noteq> None) xs"
    by (rule filter_cong) (auto simp: h)
  moreover have "map (the \<circ> f) (filter (\<lambda>x. g x \<noteq> None) xs)
      = map (the \<circ> g) (filter (\<lambda>x. g x \<noteq> None) xs)"
    by (rule map_cong) (auto simp: h)
  ultimately show ?thesis by (simp add: List.map_filter_def)
qed

lemma block_matches:
  assumes n: "n \<le> 100" and k: "k < n" and z: "z = ''zero'' \<or> z = ''cache_length''"
  shows "List.map_filter
     (match_at (concat (map (layer_block z) [0..<n])) ''Gather'' [[''Shape'']]
        [[''Add'', ''Cast'', ''Range'']])
     (layer_block z k) = [gather_match k]"
proof -
  let ?P = "concat (map (layer_block z) [0..<k])"
  let ?S = "concat (map (layer_block z) [Suc k..<n])"
  have split: "concat (map (layer_block z) [0..<n]) = ?P @ layer_block z k @ ?S"
  proof -
    have "[0..<k + (n - k)] = [0..<k] @ [k..<k + (n - k)]"
      by (rule upt_add_eq_append) simp
    moreover have "[k..<n] = k # [Suc k..<n]"
      using k by (rule upt_conv_Cons)
    ultimately have "[0..<n] = [0..<k] @ k # [Suc k..<n]"
      using k by simp
    then show ?thesis by simp
  qed
  have iso: "\<forall>c\<in>set (layer_block z k). foreign ?P (snd c) \<and> foreign ?S (snd c)"
  proof (intro ballI conjI)
    fix c assume c: "c \<in> set (layer_block z k)"
    show "foreign ?P (snd c)"
      by (rule foreign_concat) (use c k n z in \<open>auto intro!: layers_foreign\<close>)
    show "foreign ?S (snd c)"
      by (rule foreign_concat) (use c k n z in \<open>auto intro!: layers_foreign\<close>)
  qed
  have "List.map_filter
     (match_at (concat (map (layer_block z) [0..<n])) ''Gather'' [[''Shape'']]
        [[''Add'', ''Cast'', ''Range'']]) (layer_block z k)
    = List.map_filter
     (match_at (layer_block z k) ''Gather'' [[''Shape'']] [[''Add'', ''Cast'', ''Range'']])
     (layer_block z k)"
    unfolding split by (rule map_filter_cong_set) (rule match_at_frame[OF iso])
  also have "\<dots> = [gather_match k]"
    unfolding layer_block_def using layer_match[OF z, of "5 * k" k]
    by (simp add: gather_match_def)
  finally show ?thesis .
qed

lemma structural_matches_layers:
  assumes n: "n \<le> 100" and z: "z = ''zero'' \<or> z = ''cache_length''"
    and g: "graph_node g = concat (map (layer_nodes z) [0..<n])"
  shows "get_structural_matches g ''Gather'' [[''Shape'']] [[''Add'', ''Cast'', ''Range'']]
         = map gather_match [0..<n]"
proof -
  have "get_structural_matches g ''Gather'' [[''Shape'']] [[''Add'', ''Cast'', ''Range'']]
      = concat (map (\<lambda>k. List.map_filter
     (match_at (concat (map (layer_block z) [0..<n])) ''Gather'' [[''Shape'']]
        [[''Add'', ''Cast'', ''Range'']]) (layer_block z k)) [0..<n])"
    by (simp add: get_structural_matches_def g indexed_layers map_filter_concat comp_def)
  also have "\<dots> = concat (map (\<lambda>k. [gather_match k]) [0..<n])"
    by (intro arg_cong[where f=concat] map_cong refl) (use n z in \<open>auto intro!: block_matches\<close>)
  also have "\<dots> = map gather_match [0..<n]"
    by (induction n) simp_all
  finally show ?thesis .
qed

lemma nth_layers:
  assumes "k < n" "i < 5"
  shows "concat (map (layer_nodes z) [0..<n]) ! (5 * k + i) = layer_nodes z k ! i"
  using assms
proof (induction n)
  case 0
  then show ?case by simp
next
  case (Suc n)
  show ?case
  proof (cases "k < n")
    case True
    then have "5 * k + i < 5 * n" using Suc.prems by simp
    then show ?thesis using Suc True by (simp add: nth_append length_concat_layers)
  next
    case False
    then have "k = n" using Suc.prems by simp
    then show ?thesis using Suc.prems by (simp add: nth_append length_concat_layers)
  qed
qed

lemma gather_nodes_layers:
  assumes n: "n \<le> 100" and z: "z = ''zero'' \<or> z = ''cache_length''"
    and g: "graph_node g = concat (map (layer_nodes z) [0..<n])"
  shows "gather_nodes g = map gather_match [0..<n]"
proof -
  have "\<And>k. k < n \<Longrightarrow> suffix ''15'' (node_name (graph_node g ! match_node (gather_match k)))"
    using nth_layers[of _ n 1 z]
    by (simp add: g gather_match_def layer_nodes_def Let_def suffix_def)
  then show ?thesis
    unfolding gather_nodes_def structural_matches_layers[OF n z g]
    by (simp add: filter_id_conv)
qed


lemma map_update_unchanged:
  "f y = f (ns ! a) \<Longrightarrow> map f (ns[a := y]) = map f ns"
  by (cases "a < length ns") (simp_all add: map_update list_update_same_conv list_update_beyond)

lemma rewire_adds_no_assertion: "fst (rewire_adds ms ns) \<noteq> Some AssertionError"
  by (induction ms ns rule: rewire_adds.induct) (auto split: list.splits)

lemma rewire_adds_keeps:
  "length (snd (rewire_adds ms ns)) = length ns \<and>
   map node_name (snd (rewire_adds ms ns)) = map node_name ns \<and>
   map node_op_type (snd (rewire_adds ms ns)) = map node_op_type ns \<and>
   map node_output (snd (rewire_adds ms ns)) = map node_output ns"
  by (induction ms ns rule: rewire_adds.induct)
    (auto split: list.splits simp: map_update_unchanged)

lemma transform_mismatch:
  "length (gather_nodes g) \<noteq> 20 \<Longrightarrow> transform g = (Some AssertionError, g)"
  by (simp add: transform_def)

lemma transform_match:
  assumes "length (gather_nodes g) = 20"
  shows "fst (transform g) = fst (rewire_adds (gather_nodes g) (graph_node g))"
    and "snd (transform g) =
      g\<lparr>graph_input := insert_before_last cache_length (graph_input g),
        graph_node := snd (rewire_adds (gather_nodes g) (graph_node g))\<rparr>"
  using assms by (simp_all add: transform_def Let_def split: prod.splits)

lemma transform_keeps:
  "length (graph_node (snd (transform g))) = length (graph_node g) \<and>
   map node_name (graph_node (snd (transform g))) = map node_name (graph_node g) \<and>
   map node_op_type (graph_node (snd (transform g))) = map node_op_type (graph_node g) \<and>
   map node_output (graph_node (snd (transform g))) = map node_output (graph_node g) \<and>
   graph_output (snd (transform g)) = graph_output g"
  by (cases "length (gather_nodes g) = 20")
    (simp_all add: transform_mismatch transform_match rewire_adds_keeps)

lemma rewire_layers:
  assumes z: "z = ''zero'' \<or> z = ''cache_length''"
  shows "a \<le> n \<Longrightarrow>
    rewire_adds (map gather_match [a..<n])
      (concat (map (layer_nodes ''cache_length'') [0..<a]) @ concat (map (layer_nodes z) [a..<n]))
    = (None, concat (map (layer_nodes ''cache_length'') [0..<n]))"
proof (induction "n - a" arbitrary: a)
  case 0
  then show ?case by simp
next
  case (Suc d)
  then have lt: "a < n" by simp
  let ?A = "concat (map (layer_nodes ''cache_length'') [0..<a])"
  let ?B = "concat (map (layer_nodes z) [Suc a..<n])"
  have up: "[a..<n] = a # [Suc a..<n]" using lt by (rule upt_conv_Cons)
  have lenA: "length ?A = 5 * a" by (rule length_concat_layers)
  have nth: "(?A @ layer_nodes z a @ ?B) ! Suc (Suc (5 * a)) = layer_nodes z a ! 2"
    by (simp add: nth_append lenA length_layer_nodes)
  have upd: "(?A @ layer_nodes z a @ ?B)[Suc (Suc (5 * a)) := x]
      = ?A @ (layer_nodes z a)[2 := x] @ ?B"
    for x by (simp add: list_update_append lenA length_layer_nodes)
  have add: "(layer_nodes z a)[2 := (layer_nodes z a ! 2)
      \<lparr>node_input := (node_input (layer_nodes z a ! 2))[Suc 0 := ''cache_length'']\<rparr>]
      = layer_nodes ''cache_length'' a"
    by (simp add: layer_nodes_def Let_def numeral_2_eq_2)
  have len2: "\<not> length (node_input (layer_nodes z a ! 2)) \<le> Suc 0"
    by (simp add: layer_nodes_def Let_def numeral_2_eq_2)
  have IH: "rewire_adds (map gather_match [Suc a..<n])
      (concat (map (layer_nodes ''cache_length'') [0..<Suc a]) @ ?B)
    = (None, concat (map (layer_nodes ''cache_length'') [0..<n]))"
    using Suc.hyps(1)[of "Suc a"] Suc.hyps(2) lt by simp
  show ?case
    unfolding up using IH len2
    by (simp add: gather_match_def nth upd add)
qed

lemma transform_layers:
  assumes z: "z = ''zero'' \<or> z = ''cache_length''"
    and g: "graph_node g = concat (map (layer_nodes z) [0..<20])"
  shows "transform g =
    (None, g\<lparr>graph_input := insert_before_last cache_length (graph_input g),
             graph_node := concat (map (layer_nodes ''cache_length'') [0..<20])\<rparr>)"
proof -
  have gn: "gather_nodes g = map gather_match [0..<20]"
    by (rule gather_nodes_layers[OF _ z g]) simp
  have len: "length (gather_nodes g) = 20" unfolding gn by simp
  have rw: "rewire_adds (gather_nodes g) (graph_node g)
      = (None, concat (map (layer_nodes ''cache_length'') [0..<20]))"
    unfolding gn g using rewire_layers[OF z, of 0 20] by simp
  show ?thesis
    using transform_match[OF len] rw by (simp add: prod_eq_iff)
qed

lemma transform_decoder_graph:
  "transform (decoder_graph 20) =
    (None, \<lparr>graph_node = concat (map (layer_nodes ''cache_length'') [0..<20]),
            graph_input = insert_before_last cache_length decoder_inputs,
            graph_output = decoder_outputs\<rparr>)"
  using transform_layers[of "''zero''" "decoder_graph 20"] by (simp add: decoder_graph_def)

lemma transform_decoder_graph_again:
  "transform (snd (transform (decoder_graph 20))) =
    (None, \<lparr>graph_node = concat (map (layer_nodes ''cache_length'') [0..<20]),
            graph_input =
              insert_before_last cache_length (insert_before_last cache_length decoder_inputs),
            graph_output = decoder_outputs\<rparr>)"
  unfolding transform_decoder_graph
  using transform_layers[of "''cache_length''"
      "\<lparr>graph_node = concat (map (layer_nodes ''cache_length'') [0..<20]),
        graph_input = insert_before_last cache_length decoder_inputs,
        graph_output = decoder_outputs\<rparr>"]
  by simp


lemma transform_count_check_aux:
  "(if length (gather_nodes g) = 20
    then fst (transform g) \<noteq> Some AssertionError \<and>
         graph_input (snd (transform g)) = insert_before_last cache_length (graph_input g)
    else transform g = (Some AssertionError, g))"
  by (simp add: transform_mismatch transform_match rewire_adds_no_assertion)



text \<open>
  Claim C1, as stated, fails: on the decoder graph with 20 attention layers the transform
  succeeds, and the result has one new input (\<^verbatim>\<open>cache_length\<close>) and no new output, not 20
  key and 20 value cache inputs and outputs.
\<close>

theorem transform_no_cache_io_counterexample:
  "fst (transform (decoder_graph 20)) = None \<and>
   map vi_name (graph_input (snd (transform (decoder_graph 20))))
     = [''input_ids'', ''cache_length'', ''attention_mask''] \<and>
   graph_output (snd (transform (decoder_graph 20))) = graph_output (decoder_graph 20) \<and>
   length (graph_input (snd (transform (decoder_graph 20))))
     \<noteq> length (graph_input (decoder_graph 20)) + 2 * 20 + 1 \<and>
   length (graph_output (snd (transform (decoder_graph 20))))
     \<noteq> length (graph_output (decoder_graph 20)) + 2 * 20"
  unfolding transform_decoder_graph
  by (simp add: decoder_graph_def decoder_inputs_def decoder_outputs_def
      insert_before_last_def cache_length_def)

text \<open>
  Claim C1, amended. A transform that succeeds found exactly 20 matches, adds exactly one
  graph input, the scalar \<^verbatim>\<open>cache_length\<close> before the last input, and leaves the graph
  outputs as they were: it adds no cache input and no cache output.
\<close>

theorem transform_adds_only_cache_length:
  assumes "fst (transform g) = None"
  shows "length (gather_nodes g) = 20 \<and>
         graph_input (snd (transform g)) = insert_before_last cache_length (graph_input g) \<and>
         length (graph_input (snd (transform g))) = Suc (length (graph_input g)) \<and>
         graph_output (snd (transform g)) = graph_output g"
proof -
  have len: "length (gather_nodes g) = 20"
    using assms transform_mismatch[of g] by (cases "length (gather_nodes g) = 20") auto
  have "length (insert_before_last cache_length (graph_input g)) = Suc (length (graph_input g))"
    by (simp add: insert_before_last_def)
  then show ?thesis using len transform_match(2)[OF len] transform_keeps[of g] by simp
qed

theorem transform_adds_only_cache_length_witness:
  "fst (transform (decoder_graph 20)) = None \<and>
   length (gather_nodes (decoder_graph 20)) = 20 \<and>
   graph_input (snd (transform (decoder_graph 20)))
     = insert_before_last cache_length (graph_input (decoder_graph 20)) \<and>
   length (graph_input (snd (transform (decoder_graph 20)))) = 3 \<and>
   graph_output (snd (transform (decoder_graph 20))) = graph_output (decoder_graph 20)"
proof -
  have ok: "fst (transform (decoder_graph 20)) = None"
    by (simp add: transform_decoder_graph)
  have "length (graph_input (decoder_graph 20)) = 2"
    by (simp add: decoder_graph_def decoder_inputs_def)
  then show ?thesis using ok transform_adds_only_cache_length[OF ok] by auto
qed

text \<open>
  Claim C5, as stated, fails: on the decoder graph with 20 attention layers the second
  application is not rejected and does not leave the graph unchanged; it adds a second
  \<^verbatim>\<open>cache_length\<close> input.
\<close>

theorem transform_twice_counterexample:
  "fst (transform (decoder_graph 20)) = None \<and>
   fst (transform (snd (transform (decoder_graph 20)))) = None \<and>
   snd (transform (snd (transform (decoder_graph 20)))) \<noteq> snd (transform (decoder_graph 20)) \<and>
   map vi_name (graph_input (snd (transform (snd (transform (decoder_graph 20))))))
     = [''input_ids'', ''cache_length'', ''cache_length'', ''attention_mask'']"
  unfolding transform_decoder_graph_again
  by (simp add: transform_decoder_graph decoder_inputs_def insert_before_last_def
      cache_length_def)

text \<open>
  Claim C5, amended. No application of the transform inserts a node: after two
  applications the graph has the nodes it had, with their names, operator types and
  outputs, so no concatenation node is added. A second application that finds another
  number of matches than 20 raises and leaves the graph as the first application left
  it; otherwise it adds one more \<^verbatim>\<open>cache_length\<close> input.
\<close>

theorem transform_twice:
  "(let g1 = snd (transform g); r2 = transform g1 in
     length (graph_node (snd r2)) = length (graph_node g) \<and>
     map node_name (graph_node (snd r2)) = map node_name (graph_node g) \<and>
     map node_op_type (graph_node (snd r2)) = map node_op_type (graph_node g) \<and>
     map node_output (graph_node (snd r2)) = map node_output (graph_node g) \<and>
     (if length (gather_nodes g1) = 20
      then fst r2 \<noteq> Some AssertionError \<and>
           graph_input (snd r2) = insert_before_last cache_length (graph_input g1)
      else r2 = (Some AssertionError, g1)))"
  using transform_keeps[of g] transform_keeps[of "snd (transform g)"]
    transform_count_check_aux[of "snd (transform g)"]
  by (simp add: Let_def)


section \<open>Properties of the pruner\<close>

subsection \<open>Tensors and add_batch\<close>



lemma batch_input_2d:
  assumes "is_linear_like cls" "0 < f"
  shows "batch_input cls \<lparr>shape = [k, f], data = xs\<rparr>
       = Inr (1, \<lparr>shape = [f, k], data = tabulate2 f k (\<lambda>j i. xs ! (i * f + j))\<rparr>)"
  using assms by (simp add: batch_input_def unsqueeze0_def reshape_last_def tensor_t_def)

lemma batch_input_3d:
  assumes "is_linear_like cls" "0 < f"
  shows "batch_input cls \<lparr>shape = [b, k, f], data = xs\<rparr>
       = Inr (b, \<lparr>shape = [f, b * k], data = tabulate2 f (b * k) (\<lambda>j i. xs ! (i * f + j))\<rparr>)"
  using assms by (simp add: batch_input_def reshape_last_def tensor_t_def)

lemma add_batch_nsamples:
  assumes "batch_input (layer_class st) inp = Inr (tmp, x)"
    and "sint (nsamples st + of_nat tmp) \<noteq> 0"
  shows "nsamples (snd (add_batch st inp)) = nsamples st + of_nat tmp"
  using assms by (simp add: add_batch_def Let_def split: sum.splits)




lemma iadd_H_entry:
  assumes "i < c" "j < c"
  shows "iadd_H c Hm \<lparr>shape = [c, c], data = d\<rparr> = Inr Hn \<Longrightarrow>
         Hn ! i ! j = Hm ! i ! j + d ! (i * c + j)"
  using assms by (auto simp: iadd_H_def split: if_splits)



subsection \<open>Matrices, loops, sorting\<close>

lemma length_mk_matrix: "length (mk_matrix r c f) = r"
  by (simp add: mk_matrix_def)

lemma nth_mk_matrix_row: "i < r \<Longrightarrow> mk_matrix r c f ! i = map (f i) [0..<c]"
  by (simp add: mk_matrix_def)

lemma nth_mk_matrix: "i < r \<Longrightarrow> j < c \<Longrightarrow> mk_matrix r c f ! i ! j = f i j"
  by (simp add: mk_matrix_def)

lemma fold_err_upt_aux:
  "fold_err f [a..<b] s = Inr s' \<Longrightarrow> P a s \<Longrightarrow> a \<le> b \<Longrightarrow>
   (\<forall>i t t'. a \<le> i \<longrightarrow> i < b \<longrightarrow> P i t \<longrightarrow> f i t = Inr t' \<longrightarrow> P (Suc i) t') \<Longrightarrow> P b s'"
proof (induction "b - a" arbitrary: a s)
  case 0
  then show ?case by simp
next
  case (Suc d)
  then have lt: "a < b" by simp
  then have up: "[a..<b] = a # [Suc a..<b]" by (rule upt_conv_Cons)
  obtain t where t: "f a s = Inr t" and rest: "fold_err f [Suc a..<b] t = Inr s'"
    using Suc.prems(1) unfolding up by (auto split: sum.splits)
  have p: "P (Suc a) t" using Suc.prems(2,4) lt t by blast
  have d: "d = b - Suc a" using Suc.hyps(2) by simp
  have st: "\<forall>i t t'. Suc a \<le> i \<longrightarrow> i < b \<longrightarrow> P i t \<longrightarrow> f i t = Inr t' \<longrightarrow> P (Suc i) t'"
    using Suc.prems(4) by (meson Suc_leD)
  show ?case
    using Suc.hyps(1)[OF d rest p _ st] lt by simp
qed

lemma fold_err_upt:
  assumes "fold_err f [a..<b] s = Inr s'" and "P a s" and "a \<le> b"
    and "\<And>i t t'. a \<le> i \<Longrightarrow> i < b \<Longrightarrow> P i t \<Longrightarrow> f i t = Inr t' \<Longrightarrow> P (Suc i) t'"
  shows "P b s'"
  using fold_err_upt_aux[of f a b s s' P] assms by blast

lemma fold_err_map: "fold_err f (map g xs) s = fold_err (\<lambda>x. f (g x)) xs s"
  by (induction xs arbitrary: s) (auto split: sum.splits)

lemma length_filter_mono:
  "(\<And>x. x \<in> set xs \<Longrightarrow> P x \<Longrightarrow> Q x) \<Longrightarrow> length (filter P xs) \<le> length (filter Q xs)"
  by (induction xs) auto

lemma length_filter_upt_shift:
  "length (filter P [a..<a + n]) = length (filter (\<lambda>t. P (a + t)) [0..<n])"
proof -
  have "[a..<a + n] = map (\<lambda>t. a + t) [0..<n]"
    by (induction n) simp_all
  then show ?thesis by (simp add: filter_map comp_def)
qed

lemma length_filter_member:
  assumes "distinct T" "set T \<subseteq> {0..<m}"
  shows "length (filter (\<lambda>t. t \<in> set T) [0..<m]) = length T"
proof -
  have "length (filter (\<lambda>t. t \<in> set T) [0..<m]) = card {t. t < m \<and> t \<in> set T}"
    by (simp add: length_filter_conv_card cong: conj_cong)
  also have "{t. t < m \<and> t \<in> set T} = set T" using assms(2) by auto
  also have "card (set T) = length T" using assms(1) by (rule distinct_card)
  finally show ?thesis .
qed

lemma topk_smallest_props:
  "distinct (topk_smallest k xs)"
  "set (topk_smallest k xs) \<subseteq> {0..<length xs}"
  "k \<le> length xs \<Longrightarrow> length (topk_smallest k xs) = k"
proof -
  let ?ps = "sort_key fst (zip xs [0..<length xs])"
  have e: "mset (map snd ?ps) = mset (map snd (zip xs [0..<length xs]))"
    by (simp only: mset_map mset_sort)
  have z: "map snd (zip xs [0..<length xs]) = [0..<length xs]"
    by simp
  have d: "distinct (map snd ?ps)"
    using mset_eq_imp_distinct_iff[OF e] unfolding z by simp
  have s: "set (map snd ?ps) = {0..<length xs}"
    using mset_eq_setD[OF e] unfolding z by simp
  have l: "length (map snd ?ps) = length xs" by simp
  show "distinct (topk_smallest k xs)"
    unfolding topk_smallest_def using d by (rule distinct_take)
  show "set (topk_smallest k xs) \<subseteq> {0..<length xs}"
    unfolding topk_smallest_def using s set_take_subset by fastforce
  show "k \<le> length xs \<Longrightarrow> length (topk_smallest k xs) = k"
    unfolding topk_smallest_def using l by simp
qed

lemma sort_nth_count:
  fixes xs :: "real list"
  assumes "k < length xs"
  shows "Suc k \<le> length (filter (\<lambda>x. x \<le> sort xs ! k) xs)"
proof -
  let ?ys = "sort xs"
  let ?P = "\<lambda>x. x \<le> ?ys ! k"
  have len: "length ?ys = length xs" by simp
  have "length (filter ?P xs) = size (filter_mset ?P (mset xs))"
    by (metis mset_filter size_mset)
  also have "\<dots> = size (filter_mset ?P (mset ?ys))" by simp
  also have "\<dots> = length (filter ?P ?ys)" by (metis mset_filter size_mset)
  finally have eq: "length (filter ?P xs) = length (filter ?P ?ys)" .
  have all: "\<forall>x\<in>set (take (Suc k) ?ys). ?P x"
  proof
    fix x assume "x \<in> set (take (Suc k) ?ys)"
    then obtain i where i: "i < Suc k" "i < length ?ys" "x = ?ys ! i"
      by (auto simp: in_set_conv_nth)
    then show "?P x" using sorted_nth_mono[of ?ys i k] assms by (simp add: len)
  qed
  have "?ys = take (Suc k) ?ys @ drop (Suc k) ?ys" by simp
  then have "length (filter ?P ?ys)
      = length (filter ?P (take (Suc k) ?ys)) + length (filter ?P (drop (Suc k) ?ys))"
    by (metis filter_append length_append)
  moreover have "filter ?P (take (Suc k) ?ys) = take (Suc k) ?ys"
    using all by (simp add: filter_id_conv)
  moreover have "length (take (Suc k) ?ys) = Suc k" using assms by (simp add: len)
  ultimately show ?thesis using eq by simp
qed

lemma length_filter_concat:
  "length (filter P (concat xss)) = sum_list (map (\<lambda>xs. length (filter P xs)) xss)"
  by (induction xss) simp_all


subsection \<open>The column loop\<close>

lemma col_step_Q1:
  assumes "col_step fq prunen prunem r n Hinv1 i s = Inr s'" "a < r" "j < n"
  shows "Q1 s' ! a ! j =
    (if j = i then (let v = (if mask1 s' ! a ! i then 0 else W1 s ! a ! i)
                    in case fq of None \<Rightarrow> v | Some f \<Rightarrow> f a v)
     else Q1 s ! a ! j)"
  using assms
  by (auto simp: col_step_def Let_def nth_mk_matrix split: if_splits)

lemma col_step_mask:
  assumes "col_step fq prunen prunem r n Hinv1 i s = Inr s'" "a < r" "j < n"
  shows "mask1 s' ! a ! j =
    (if prunen \<noteq> 0 \<and> i mod prunem = 0
     then mask1 s ! a ! j \<or>
          (i \<le> j \<and> j - i \<in> set (topk_smallest prunen
             (map (\<lambda>t. (W1 s ! a ! (i + t))\<^sup>2 / (Hinv1 ! (i + t) ! (i + t))\<^sup>2)
                [0..<min prunem (n - i)])))
     else mask1 s ! a ! j)"
  using assms
  by (auto simp: col_step_def Let_def nth_mk_matrix split: if_splits)

lemma col_step_ok:
  assumes "col_step fq prunen prunem r n Hinv1 i s = Inr s'" "prunen \<noteq> 0"
  shows "0 < prunem" and "i mod prunem = 0 \<Longrightarrow> prunen \<le> min prunem (n - i)"
  using assms by (auto simp: col_step_def Let_def split: if_splits)

lemma col_step_group_count:
  assumes st: "col_step fq prunen prunem r n Hinv1 i s = Inr s'"
    and n0: "prunen \<noteq> 0" and g: "i mod prunem = 0" and full: "i + prunem \<le> n" and a: "a < r"
  shows "prunen \<le> length (filter (\<lambda>j. mask1 s' ! a ! j) [i..<i + prunem])"
proof -
  let ?sc = "map (\<lambda>t. (W1 s ! a ! (i + t))\<^sup>2 / (Hinv1 ! (i + t) ! (i + t))\<^sup>2) [0..<min prunem (n - i)]"
  let ?T = "topk_smallest prunen ?sc"
  have w: "min prunem (n - i) = prunem" using full by simp
  have le: "prunen \<le> length ?sc" using col_step_ok(2)[OF st n0 g] by simp
  have T: "distinct ?T" "set ?T \<subseteq> {0..<prunem}" "length ?T = prunen"
    using topk_smallest_props[of prunen ?sc] le by (simp_all add: w)
  have "length ?T = length (filter (\<lambda>t. t \<in> set ?T) [0..<prunem])"
    using length_filter_member[OF T(1,2)] by simp
  also have "\<dots> = length (filter (\<lambda>j. j - i \<in> set ?T) [i..<i + prunem])"
    by (simp add: length_filter_upt_shift)
  also have "\<dots> \<le> length (filter (\<lambda>j. mask1 s' ! a ! j) [i..<i + prunem])"
  proof (rule length_filter_mono)
    fix j assume j: "j \<in> set [i..<i + prunem]" and m: "j - i \<in> set ?T"
    then have "j < n" "i \<le> j" using full by auto
    then show "mask1 s' ! a ! j"
      using col_step_mask[OF st a, of j] n0 g m by simp
  qed
  finally show ?thesis using T(3) by simp
qed

lemma col_step_inv:
  assumes st: "col_step fq prunen prunem r n Hinv1 i s = Inr s'"
    and inv: "col_inv prunen prunem r n m0 i s" and i: "i < n" and kz: "keeps_zero fq"
  shows "col_inv prunen prunem r n m0 (Suc i) s'"
  unfolding col_inv_def
proof (intro conjI allI impI)
  fix a j assume a: "a < r" and j: "j < Suc i" and m: "mask1 s' ! a ! j"
  have jn: "j < n" using i j by simp
  show "Q1 s' ! a ! j = 0"
  proof (cases "j = i")
    case True
    then show ?thesis
      using col_step_Q1[OF st a jn] m kz by (auto simp: keeps_zero_def split: option.splits)
  next
    case False
    then have ji: "j < i" using j by simp
    then have "mask1 s ! a ! j" using col_step_mask[OF st a jn] m by (auto split: if_splits)
    then have "Q1 s ! a ! j = 0" using inv a ji by (simp add: col_inv_def)
    then show ?thesis using col_step_Q1[OF st a jn] False by simp
  qed
next
  fix a g assume n0: "prunen \<noteq> 0" and a: "a < r" and g: "g < Suc i"
    and gm: "g mod prunem = 0 \<and> g + prunem \<le> n"
  show "prunen \<le> length (filter (\<lambda>j. mask1 s' ! a ! j) [g..<g + prunem])"
  proof (cases "g = i")
    case True
    then show ?thesis using col_step_group_count[OF st n0 _ _ a] gm by simp
  next
    case False
    then have gi: "g < i" using g by simp
    have "prunen \<le> length (filter (\<lambda>j. mask1 s ! a ! j) [g..<g + prunem])"
      using inv n0 a gi gm by (simp add: col_inv_def)
    also have "\<dots> \<le> length (filter (\<lambda>j. mask1 s' ! a ! j) [g..<g + prunem])"
    proof (rule length_filter_mono)
      fix j assume "j \<in> set [g..<g + prunem]" and m: "mask1 s ! a ! j"
      then have "j < n" using gm by auto
      then show "mask1 s' ! a ! j" using col_step_mask[OF st a, of j] m by simp
    qed
    finally show ?thesis .
  qed
next
  fix a j assume a: "a < r" and j: "j < n" and m: "m0 ! a ! j"
  then have "mask1 s ! a ! j" using inv by (simp add: col_inv_def)
  then show "mask1 s' ! a ! j" using col_step_mask[OF st a j] by simp
qed

lemma col_loop_inv:
  assumes "fold_err (col_step fq prunen prunem r n Hinv1) [0..<n] s = Inr s'"
    and "col_inv prunen prunem r n m0 0 s" and "keeps_zero fq"
  shows "col_inv prunen prunem r n m0 n s'"
  by (rule fold_err_upt[OF assms(1), where P = "col_inv prunen prunem r n m0"])
    (use assms in \<open>auto intro: col_step_inv\<close>)


subsection \<open>One block\<close>

lemma block_step_inv:
  assumes bs: "block_step fq sparsity prunen prunem blocksize r c Hinv i1 W = Inr W'"
    and kz: "keeps_zero fq"
  obtains m0 s where
    "initial_mask prunen sparsity r (min (i1 + blocksize) c - i1)
        (block_W1 r (min (i1 + blocksize) c - i1) i1 W)
        (block_Hinv1 (min (i1 + blocksize) c - i1) i1 Hinv) = Inr m0"
    "col_inv prunen prunem r (min (i1 + blocksize) c - i1) m0 (min (i1 + blocksize) c - i1) s"
    "W' = block_store r c i1 (min (i1 + blocksize) c) Hinv W s"
proof -
  let ?n = "min (i1 + blocksize) c - i1"
  obtain m0 where im: "initial_mask prunen sparsity r ?n (block_W1 r ?n i1 W)
        (block_Hinv1 ?n i1 Hinv) = Inr m0"
    using bs unfolding block_step_def Let_def
    by (cases "initial_mask prunen sparsity r ?n (block_W1 r ?n i1 W) (block_Hinv1 ?n i1 Hinv)")
      simp_all
  obtain s where fe: "fold_err (col_step fq prunen prunem r ?n (block_Hinv1 ?n i1 Hinv)) [0..<?n]
        (block_init r ?n (block_W1 r ?n i1 W) m0) = Inr s"
    using bs unfolding block_step_def Let_def im
    by (cases "fold_err (col_step fq prunen prunem r ?n (block_Hinv1 ?n i1 Hinv)) [0..<?n]
        (block_init r ?n (block_W1 r ?n i1 W) m0)") simp_all
  have W': "W' = block_store r c i1 (min (i1 + blocksize) c) Hinv W s"
    using bs fe unfolding block_step_def Let_def im by simp
  have inv: "col_inv prunen prunem r ?n m0 ?n s"
    by (rule col_loop_inv[OF fe _ kz]) (simp add: col_inv_def block_init_def)
  show ?thesis by (rule that[OF im inv W'])
qed

lemma block_store_before:
  "a < r \<Longrightarrow> j < i1 \<Longrightarrow> j < c \<Longrightarrow> block_store r c i1 i2 Hinv W s ! a ! j = W ! a ! j"
  by (simp add: block_store_def nth_mk_matrix)

lemma block_store_inside:
  "a < r \<Longrightarrow> i1 \<le> j \<Longrightarrow> j < i2 \<Longrightarrow> j < c \<Longrightarrow>
   block_store r c i1 i2 Hinv W s ! a ! j = Q1 s ! a ! (j - i1)"
  by (simp add: block_store_def nth_mk_matrix)

lemma block_step_before:
  assumes "block_step fq sparsity prunen prunem blocksize r c Hinv i1 W = Inr W'"
    and "keeps_zero fq" "a < r" "j < i1" "j < c"
  shows "W' ! a ! j = W ! a ! j"
  using block_step_inv[OF assms(1,2)] assms(3-5) by (metis block_store_before)

lemma block_step_group:
  assumes bs: "block_step fq sparsity prunen prunem blocksize r c Hinv i1 W = Inr W'"
    and kz: "keeps_zero fq" and n0: "prunen \<noteq> 0" and a: "a < r"
    and g: "g mod prunem = 0" and full: "i1 + g + prunem \<le> min (i1 + blocksize) c"
    and pm: "0 < prunem"
  shows "prunen \<le> length (filter (\<lambda>j. W' ! a ! j = 0) [i1 + g..<i1 + g + prunem])"
proof -
  let ?n = "min (i1 + blocksize) c - i1"
  obtain m0 s where inv: "col_inv prunen prunem r ?n m0 ?n s"
    and W': "W' = block_store r c i1 (min (i1 + blocksize) c) Hinv W s"
    using block_step_inv[OF bs kz] by blast
  have gn: "g + prunem \<le> ?n" using full by (auto simp: min_def)
  have gl: "g < ?n" using gn pm by simp
  have "prunen \<le> length (filter (\<lambda>j. mask1 s ! a ! j) [g..<g + prunem])"
    using inv n0 a gl g gn by (simp add: col_inv_def)
  also have "\<dots> \<le> length (filter (\<lambda>j. Q1 s ! a ! j = 0) [g..<g + prunem])"
  proof (rule length_filter_mono)
    fix j assume "j \<in> set [g..<g + prunem]" and m: "mask1 s ! a ! j"
    then have "j < ?n" using gn by auto
    then show "Q1 s ! a ! j = 0" using inv a m by (simp add: col_inv_def)
  qed
  also have "\<dots> = length (filter (\<lambda>t. Q1 s ! a ! (g + t) = 0) [0..<prunem])"
    by (rule length_filter_upt_shift)
  also have "\<dots> = length (filter (\<lambda>t. W' ! a ! (i1 + g + t) = 0) [0..<prunem])"
  proof -
    have "filter (\<lambda>t. Q1 s ! a ! (g + t) = 0) [0..<prunem]
        = filter (\<lambda>t. W' ! a ! (i1 + g + t) = 0) [0..<prunem]"
    proof (rule filter_cong[OF refl])
      fix t assume "t \<in> set [0..<prunem]"
      then have lt: "i1 + g + t < min (i1 + blocksize) c" using full by simp
      then have "W' ! a ! (i1 + g + t) = Q1 s ! a ! (i1 + g + t - i1)"
        unfolding W' using a by (intro block_store_inside) simp_all
      then show "(Q1 s ! a ! (g + t) = 0) = (W' ! a ! (i1 + g + t) = 0)"
        by (simp add: add.assoc)
    qed
    then show ?thesis by simp
  qed
  also have "\<dots> = length (filter (\<lambda>j. W' ! a ! j = 0) [i1 + g..<i1 + g + prunem])"
    by (rule length_filter_upt_shift[symmetric])
  finally show ?thesis .
qed


subsection \<open>The loop over the blocks\<close>

lemma block_count_less:
  assumes "0 < bs" "k < (c + bs - 1) div bs"
  shows "k * bs < (c::nat)"
proof -
  have "Suc k * bs \<le> (c + bs - 1) div bs * bs"
    using assms(2) by (intro mult_le_mono1) simp
  also have "\<dots> \<le> c + bs - 1" by (simp add: div_times_less_eq_dividend)
  finally show ?thesis using assms(1) by simp
qed

lemma block_count_cover:
  assumes "0 < bs"
  shows "(c::nat) \<le> (c + bs - 1) div bs * bs"
proof -
  have "c + bs - 1 = (c + bs - 1) div bs * bs + (c + bs - 1) mod bs" by simp
  moreover have "(c + bs - 1) mod bs < bs" using assms by simp
  ultimately show ?thesis by linarith
qed

lemma fasterprune_blocks_group:
  assumes fe: "fold_err (block_step fq sparsity prunen prunem blocksize r c Hinv)
                 (block_starts c blocksize) W0 = Inr W'"
    and kz: "keeps_zero fq" and n0: "prunen \<noteq> 0" and pm: "0 < prunem"
    and dv: "prunem dvd blocksize" and bp: "0 < blocksize"
    and a: "a < r" and t: "(t + 1) * prunem \<le> c"
  shows "prunen \<le> length (filter (\<lambda>j. W' ! a ! j = 0) [t * prunem..<(t + 1) * prunem])"
proof -
  let ?nb = "(c + blocksize - 1) div blocksize"
  let ?P = "\<lambda>k W. \<forall>a<r. \<forall>t. (t + 1) * prunem \<le> min (k * blocksize) c \<longrightarrow>
      prunen \<le> length (filter (\<lambda>j. W ! a ! j = 0) [t * prunem..<(t + 1) * prunem])"
  have fe': "fold_err (\<lambda>k. block_step fq sparsity prunen prunem blocksize r c Hinv (k * blocksize))
      [0..<?nb] W0 = Inr W'"
    using fe by (simp add: block_starts_def fold_err_map)
  have "?P ?nb W'"
  proof (rule fold_err_upt[OF fe', where P = ?P])
    show "?P 0 W0" using pm by simp
    show "0 \<le> ?nb" by simp
  next
    fix k W W1'
    assume k: "k < ?nb" and P: "?P k W"
      and st: "block_step fq sparsity prunen prunem blocksize r c Hinv (k * blocksize) W = Inr W1'"
    let ?i1 = "k * blocksize"
    have i1c: "?i1 < c" using block_count_less[OF bp k] .
    have mn: "min (Suc k * blocksize) c = min (?i1 + blocksize) c" by (simp add: add.commute)
    show "?P (Suc k) W1'"
    proof (intro allI impI)
      fix a t assume a: "a < r" and t: "(t + 1) * prunem \<le> min (Suc k * blocksize) c"
      show "prunen \<le> length (filter (\<lambda>j. W1' ! a ! j = 0) [t * prunem..<(t + 1) * prunem])"
      proof (cases "(t + 1) * prunem \<le> ?i1")
        case True
        have "filter (\<lambda>j. W1' ! a ! j = 0) [t * prunem..<(t + 1) * prunem]
            = filter (\<lambda>j. W ! a ! j = 0) [t * prunem..<(t + 1) * prunem]"
        proof (rule filter_cong[OF refl])
          fix j assume "j \<in> set [t * prunem..<(t + 1) * prunem]"
          then have "j < ?i1" "j < c" using True i1c by auto
          then show "(W1' ! a ! j = 0) = (W ! a ! j = 0)"
            using block_step_before[OF st kz a] by simp
        qed
        moreover have "(t + 1) * prunem \<le> min ?i1 c" using True i1c by simp
        ultimately show ?thesis using P a by simp
      next
        case False
        obtain q where q: "?i1 = q * prunem"
          using dv by (metis dvd_def mult.commute mult.assoc dvd_mult dvd_triv_right)
        have "q * prunem < (t + 1) * prunem" using False q by simp
        then have "q < t + 1" using mult_less_cancel2[of q prunem "t + 1"] by blast
        then have "q \<le> t" by simp
        then obtain d where d: "t = q + d" using le_Suc_ex by blast
        have g: "(d * prunem) mod prunem = 0" by simp
        have tm: "t * prunem = ?i1 + d * prunem" by (simp add: d q add_mult_distrib)
        have full: "?i1 + d * prunem + prunem \<le> min (?i1 + blocksize) c"
          using t unfolding mn tm[symmetric] by simp
        have "prunen \<le> length (filter (\<lambda>j. W1' ! a ! j = 0)
                 [?i1 + d * prunem..<?i1 + d * prunem + prunem])"
          by (rule block_step_group[OF st kz n0 a g full pm])
        moreover have "?i1 + d * prunem + prunem = (t + 1) * prunem"
          using tm by simp
        ultimately show ?thesis unfolding tm[symmetric] by simp
      qed
    qed
  qed
  moreover have "min (?nb * blocksize) c = c"
    using block_count_cover[OF bp, of c] by simp
  ultimately show ?thesis using a t by simp
qed

subsection \<open>Unstructured pruning\<close>

lemma threshold_index_bounds:
  assumes "threshold_index numel sparsity = Inr k"
  shows "k < numel" and "real numel * sparsity < real (Suc k)"
proof -
  let ?x = "real numel * sparsity"
  let ?k = "if 0 \<le> ?x then \<lfloor>?x\<rfloor> else \<lceil>?x\<rceil>"
  have c: "(0 \<le> ?k \<and> ?k < int numel \<and> k = nat ?k) \<or>
           (- int numel \<le> ?k \<and> ?k < 0 \<and> k = nat (int numel + ?k))"
    using assms unfolding threshold_index_def Let_def by (auto split: if_splits)
  show "k < numel" using c by auto
  show "?x < real (Suc k)"
  proof (cases "0 \<le> ?x")
    case True
    then have "0 \<le> \<lfloor>?x\<rfloor>" by simp
    then have "k = nat \<lfloor>?x\<rfloor>" using c True by auto
    then have "real (Suc k) = real_of_int \<lfloor>?x\<rfloor> + 1" using \<open>0 \<le> \<lfloor>?x\<rfloor>\<close> by simp
    then show ?thesis by linarith
  next
    case False
    then show ?thesis by simp
  qed
qed

lemma zeros_between_split:
  assumes "lo \<le> mid" "mid \<le> hi"
  shows "zeros_between r lo hi W = zeros_between r lo mid W + zeros_between r mid hi W"
proof -
  have "[lo..<hi] = [lo..<mid] @ [mid..<hi]"
    using assms by (metis le_Suc_ex upt_add_eq_append)
  then show ?thesis
    by (simp add: zeros_between_def sum_list_addf)
qed

lemma zeros_between_cong:
  assumes "\<And>a j. a < r \<Longrightarrow> lo \<le> j \<Longrightarrow> j < hi \<Longrightarrow> (W ! a ! j = 0) = (V ! a ! j = 0)"
  shows "zeros_between r lo hi W = zeros_between r lo hi V"
proof -
  have "map (\<lambda>a. length (filter (\<lambda>j. W ! a ! j = 0) [lo..<hi])) [0..<r]
      = map (\<lambda>a. length (filter (\<lambda>j. V ! a ! j = 0) [lo..<hi])) [0..<r]"
  proof (rule map_cong[OF refl])
    fix a assume "a \<in> set [0..<r]"
    then have a: "a < r" by simp
    have "filter (\<lambda>j. W ! a ! j = 0) [lo..<hi] = filter (\<lambda>j. V ! a ! j = 0) [lo..<hi]"
      by (rule filter_cong[OF refl]) (use assms[OF a] in simp)
    then show "length (filter (\<lambda>j. W ! a ! j = 0) [lo..<hi])
             = length (filter (\<lambda>j. V ! a ! j = 0) [lo..<hi])" by simp
  qed
  then show ?thesis unfolding zeros_between_def by (rule arg_cong)
qed

lemma initial_mask_count:
  assumes im: "initial_mask 0 sparsity r n Wb Hinv1 = Inr m0"
  shows "sparsity * real (r * n)
       < real (sum_list (map (\<lambda>a. length (filter (\<lambda>j. m0 ! a ! j) [0..<n])) [0..<r]))"
proof -
  let ?f = "\<lambda>a j. (Wb ! a ! j)\<^sup>2 / (Hinv1 ! j ! j)\<^sup>2"
  let ?tmp = "mk_matrix r n ?f"
  obtain k where k: "threshold_index (r * n) sparsity = Inr k"
    using im unfolding initial_mask_def Let_def
    by (cases "threshold_index (r * n) sparsity") simp_all
  let ?th = "sort (concat ?tmp) ! k"
  have m0: "m0 = mk_matrix r n (\<lambda>a j. ?tmp ! a ! j \<le> ?th)"
    using im unfolding initial_mask_def Let_def k by simp
  have len: "length (concat ?tmp) = r * n"
    by (simp add: mk_matrix_def length_concat comp_def sum_list_triv)
  have kb: "k < r * n" "real (r * n) * sparsity < real (Suc k)"
    using threshold_index_bounds[OF k] by simp_all
  have "Suc k \<le> length (filter (\<lambda>x. x \<le> ?th) (concat ?tmp))"
    using sort_nth_count[of k "concat ?tmp"] kb(1) len by simp
  also have "\<dots> = sum_list (map (\<lambda>xs. length (filter (\<lambda>x. x \<le> ?th) xs)) ?tmp)"
    by (rule length_filter_concat)
  also have "\<dots> = sum_list (map (\<lambda>a. length (filter (\<lambda>j. ?f a j \<le> ?th) [0..<n])) [0..<r])"
    by (simp add: mk_matrix_def comp_def filter_map)
  also have "\<dots> = sum_list (map (\<lambda>a. length (filter (\<lambda>j. m0 ! a ! j) [0..<n])) [0..<r])"
  proof -
    have "map (\<lambda>a. length (filter (\<lambda>j. ?f a j \<le> ?th) [0..<n])) [0..<r]
        = map (\<lambda>a. length (filter (\<lambda>j. m0 ! a ! j) [0..<n])) [0..<r]"
    proof (rule map_cong[OF refl])
      fix a assume "a \<in> set [0..<r]"
      then have a: "a < r" by simp
      have "filter (\<lambda>j. ?f a j \<le> ?th) [0..<n] = filter (\<lambda>j. m0 ! a ! j) [0..<n]"
        by (rule filter_cong[OF refl]) (use a in \<open>simp add: m0 nth_mk_matrix\<close>)
      then show "length (filter (\<lambda>j. ?f a j \<le> ?th) [0..<n])
               = length (filter (\<lambda>j. m0 ! a ! j) [0..<n])" by simp
    qed
    then show ?thesis by (rule arg_cong)
  qed
  finally have "real (Suc k)
      \<le> real (sum_list (map (\<lambda>a. length (filter (\<lambda>j. m0 ! a ! j) [0..<n])) [0..<r]))"
    by (simp only: of_nat_le_iff)
  then show ?thesis using kb(2) by (simp add: mult.commute)
qed

lemma block_step_zeros:
  assumes bs: "block_step fq sparsity 0 prunem blocksize r c Hinv i1 W = Inr W'"
    and kz: "keeps_zero fq" and i1: "i1 \<le> c"
  shows "sparsity * real (r * (min (i1 + blocksize) c - i1))
       < real (zeros_between r i1 (min (i1 + blocksize) c) W')"
proof -
  let ?i2 = "min (i1 + blocksize) c"
  let ?n = "?i2 - i1"
  obtain m0 s where im: "initial_mask 0 sparsity r ?n (block_W1 r ?n i1 W)
        (block_Hinv1 ?n i1 Hinv) = Inr m0"
    and inv: "col_inv 0 prunem r ?n m0 ?n s"
    and W': "W' = block_store r c i1 ?i2 Hinv W s"
    using block_step_inv[OF bs kz] by blast
  have i2: "i1 \<le> ?i2" "?i2 \<le> c" using i1 by simp_all
  have "sum_list (map (\<lambda>a. length (filter (\<lambda>j. m0 ! a ! j) [0..<?n])) [0..<r])
      \<le> sum_list (map (\<lambda>a. length (filter (\<lambda>j. W' ! a ! j = 0) [i1..<?i2])) [0..<r])"
  proof (rule sum_list_mono)
    fix a assume "a \<in> set [0..<r]"
    then have a: "a < r" by simp
    have "length (filter (\<lambda>j. m0 ! a ! j) [0..<?n])
        \<le> length (filter (\<lambda>t. W' ! a ! (i1 + t) = 0) [0..<?n])"
    proof (rule length_filter_mono)
      fix t assume "t \<in> set [0..<?n]" and m: "m0 ! a ! t"
      then have t: "t < ?n" by simp
      have "mask1 s ! a ! t" using inv a t m by (simp add: col_inv_def)
      then have q: "Q1 s ! a ! t = 0" using inv a t by (simp add: col_inv_def)
      have "i1 + t < ?i2" using t by linarith
      then have "W' ! a ! (i1 + t) = Q1 s ! a ! (i1 + t - i1)"
        unfolding W' using a i2 by (intro block_store_inside) simp_all
      then show "W' ! a ! (i1 + t) = 0" using q by simp
    qed
    also have "\<dots> = length (filter (\<lambda>j. W' ! a ! j = 0) [i1..<i1 + ?n])"
      by (rule length_filter_upt_shift[symmetric])
    also have "i1 + ?n = ?i2" using i2 by simp
    finally show "length (filter (\<lambda>j. m0 ! a ! j) [0..<?n])
        \<le> length (filter (\<lambda>j. W' ! a ! j = 0) [i1..<?i2])" .
  qed
  then have "real (sum_list (map (\<lambda>a. length (filter (\<lambda>j. m0 ! a ! j) [0..<?n])) [0..<r]))
      \<le> real (zeros_between r i1 ?i2 W')"
    unfolding zeros_between_def by (simp only: of_nat_le_iff)
  then show ?thesis using initial_mask_count[OF im] by linarith
qed

lemma fasterprune_blocks_zeros:
  assumes fe: "fold_err (block_step fq sparsity 0 prunem blocksize r c Hinv)
                 (block_starts c blocksize) W0 = Inr W'"
    and kz: "keeps_zero fq" and bp: "0 < blocksize" and c: "0 < c"
  shows "sparsity * real (r * c) < real (zeros_between r 0 c W')"
proof -
  let ?nb = "(c + blocksize - 1) div blocksize"
  let ?P = "\<lambda>k W. k = 0 \<or>
      sparsity * real (r * min (k * blocksize) c) < real (zeros_between r 0 (min (k * blocksize) c) W)"
  have fe': "fold_err (\<lambda>k. block_step fq sparsity 0 prunem blocksize r c Hinv (k * blocksize))
      [0..<?nb] W0 = Inr W'"
    using fe by (simp add: block_starts_def fold_err_map)
  have "?P ?nb W'"
  proof (rule fold_err_upt[OF fe', where P = ?P])
    show "?P 0 W0" by simp
    show "0 \<le> ?nb" by simp
  next
    fix k W W1'
    assume k: "k < ?nb" and P: "?P k W"
      and st: "block_step fq sparsity 0 prunem blocksize r c Hinv (k * blocksize) W = Inr W1'"
    let ?i1 = "k * blocksize"
    let ?i2 = "min (?i1 + blocksize) c"
    have i1c: "?i1 < c" using block_count_less[OF bp k] .
    have mn: "min (Suc k * blocksize) c = ?i2" by (simp add: add.commute)
    have m1: "min ?i1 c = ?i1" using i1c by simp
    have i12: "?i1 \<le> ?i2" using i1c by simp
    have blk: "sparsity * real (r * (?i2 - ?i1)) < real (zeros_between r ?i1 ?i2 W1')"
      by (rule block_step_zeros[OF st kz]) (use i1c in simp)
    have same: "zeros_between r 0 ?i1 W1' = zeros_between r 0 ?i1 W"
      by (rule zeros_between_cong) (use block_step_before[OF st kz] i1c in simp)
    have pre: "sparsity * real (r * ?i1) \<le> real (zeros_between r 0 ?i1 W)"
    proof (cases "k = 0")
      case True
      then show ?thesis by simp
    next
      case False
      then show ?thesis using P unfolding m1 by simp
    qed
    have sp: "zeros_between r 0 ?i2 W1' = zeros_between r 0 ?i1 W1' + zeros_between r ?i1 ?i2 W1'"
      by (rule zeros_between_split) (use i12 in simp_all)
    have "real (r * ?i2) = real (r * ?i1) + real (r * (?i2 - ?i1))"
      using i12 by (simp add: algebra_simps of_nat_diff)
    then have "sparsity * real (r * ?i2)
        = sparsity * real (r * ?i1) + sparsity * real (r * (?i2 - ?i1))"
      by (simp only: distrib_left)
    also have "\<dots> < real (zeros_between r 0 ?i1 W) + real (zeros_between r ?i1 ?i2 W1')"
      using pre blk by linarith
    also have "\<dots> = real (zeros_between r 0 ?i2 W1')"
      unfolding sp same by simp
    finally show "?P (Suc k) W1'" unfolding mn by simp
  qed
  moreover have "min (?nb * blocksize) c = c"
    using block_count_cover[OF bp, of c] by simp
  moreover have "?nb \<noteq> 0"
  proof
    assume "?nb = 0"
    then have "c + blocksize - 1 < blocksize" using bp by (simp add: div_eq_0_iff)
    then show False using c by simp
  qed
  ultimately show ?thesis by simp
qed


subsection \<open>The whole call\<close>

lemma fasterprune_success:
  assumes "fasterprune st sparsity prunen prunem blocksize percdamp = (None, st')"
  obtains Hinv W0 where
    "fold_err (block_step (weight_fake_quant st) sparsity prunen prunem blocksize
                 (rows st) (columns st) Hinv)
        (block_starts (columns st) blocksize) W0 = Inr (layer_weight st')"
    "0 < blocksize"
  using assms unfolding fasterprune_def factor_and_prune_def Let_def
  by (auto split: prod.splits option.splits if_splits sum.splits)

subsection \<open>Runs on the example layers\<close>

lemma upt4: "[0..<4] = [0, 1, 2, 3]" "[0..<3] = [0, 1, 2]" "[0..<2] = [0, 1]" "[0..<1] = [0]"
  by (simp_all add: upt_rec)

lemma cholesky_ident4: "cholesky 4 ident4 = Some ident4"
  by (simp add: cholesky_def chol_row_def dot_def ident4_def upt4 Let_def)
    (simp add: eval_nat_numeral)

lemma cholesky_inverse_ident4: "cholesky_inverse 4 ident4 = ident4"
  by (simp add: cholesky_inverse_def lower_inverse_def mk_matrix_def ident4_def upt4 Let_def)

lemma cholesky_upper_ident4: "cholesky_upper 4 ident4 = Some ident4"
  by (simp add: cholesky_upper_def cholesky_ident4) (simp add: mk_matrix_def ident4_def upt4)

lemma neutralize_ident4:
  "neutralize_dead (Suc 0) 4 ident4 [[a, b, c, d]] = (ident4, [[a, b, c, d]])"
  by (simp add: neutralize_dead_def diag_of_def mk_matrix_def ident4_def upt4 Let_def)

lemma add_damp_ident4: "add_damp 4 0 ident4 = ident4"
  by (simp add: add_damp_def diag_of_def mk_matrix_def ident4_def upt4 Let_def)

lemma block_slices4:
  "min (0 + 4) 4 - 0 = (4::nat)"
  "block_W1 (Suc 0) 4 0 [[a, b, c, d]] = [[a, b, c, d]]"
  "block_Hinv1 4 0 ident4 = ident4"
  by (simp_all add: block_W1_def block_Hinv1_def mk_matrix_def ident4_def upt4)

lemma block_starts4: "block_starts 4 4 = [0]"
  by (simp add: block_starts_def)

lemma factor_and_prune_ident4:
  assumes "rows st = Suc 0" "columns st = 4" "weight_fake_quant st = None"
    and "block_step None sparsity prunen prunem 4 (Suc 0) 4 ident4 0 W0 = Inr W'"
  shows "factor_and_prune st sparsity prunen prunem 4 ident4 W0
       = (None, st\<lparr>H := ident4, layer_weight := W'\<rparr>)"
  by (simp add: factor_and_prune_def assms cholesky_ident4 cholesky_inverse_ident4
      cholesky_upper_ident4 block_starts4)

text \<open>Unstructured pruning of four equal weights.\<close>

lemma initial_mask_tied:
  "initial_mask 0 (1 / 4) (Suc 0) 4 [[1, 1, 1, 1]] ident4 = Inr [[True, True, True, True]]"
  by (simp add: initial_mask_def threshold_index_def mk_matrix_def ident4_def upt4 Let_def)

lemma col_loop_tied:
  "fold_err (col_step None 0 0 (Suc 0) 4 ident4) [0..<4]
     (block_init (Suc 0) 4 [[1, 1, 1, 1]] [[True, True, True, True]])
   = Inr \<lparr>W1 = [[0, 0, 0, 0]], Q1 = [[0, 0, 0, 0]], Err1 = [[1, 1, 1, 1]],
          mask1 = [[True, True, True, True]]\<rparr>"
  by (simp add: col_step_def block_init_def mk_matrix_def ident4_def upt4 Let_def)

lemma block_step_tied:
  "block_step None (1 / 4) 0 0 4 (Suc 0) 4 ident4 0 [[1, 1, 1, 1]] = Inr [[0, 0, 0, 0]]"
  unfolding block_step_def Let_def block_slices4 initial_mask_tied sum.case col_loop_tied
  by (simp add: block_store_def mk_matrix_def upt4)

lemma fasterprune_tied:
  "fasterprune tied_layer (1 / 4) 0 0 4 0
   = (None, tied_layer\<lparr>H := ident4, layer_weight := [[0, 0, 0, 0]]\<rparr>)"
proof -
  have "fasterprune tied_layer (1 / 4) 0 0 4 0
      = factor_and_prune tied_layer (1 / 4) 0 0 4 ident4 [[1, 1, 1, 1]]"
    by (simp add: fasterprune_def tied_layer_def ramp_layer_def fresh_layer_def
        neutralize_ident4 add_damp_ident4)
  also have "\<dots> = (None, tied_layer\<lparr>H := ident4, layer_weight := [[0, 0, 0, 0]]\<rparr>)"
    by (rule factor_and_prune_ident4[OF _ _ _ block_step_tied])
      (simp_all add: tied_layer_def ramp_layer_def fresh_layer_def)
  finally show ?thesis .
qed

text \<open>Unstructured pruning of four different weights.\<close>

lemma initial_mask_ramp:
  "initial_mask 0 (1 / 4) (Suc 0) 4 [[4, 1, 3, 2]] ident4 = Inr [[False, True, False, True]]"
  by (simp add: initial_mask_def threshold_index_def mk_matrix_def ident4_def upt4 Let_def)

lemma col_loop_ramp:
  "fold_err (col_step None 0 0 (Suc 0) 4 ident4) [0..<4]
     (block_init (Suc 0) 4 [[4, 1, 3, 2]] [[False, True, False, True]])
   = Inr \<lparr>W1 = [[4, 0, 3, 0]], Q1 = [[4, 0, 3, 0]], Err1 = [[0, 1, 0, 2]],
          mask1 = [[False, True, False, True]]\<rparr>"
  by (simp add: col_step_def block_init_def mk_matrix_def ident4_def upt4 Let_def)

lemma block_step_ramp:
  "block_step None (1 / 4) 0 0 4 (Suc 0) 4 ident4 0 [[4, 1, 3, 2]] = Inr [[4, 0, 3, 0]]"
  unfolding block_step_def Let_def block_slices4 initial_mask_ramp sum.case col_loop_ramp
  by (simp add: block_store_def mk_matrix_def upt4)

lemma fasterprune_ramp:
  "fasterprune ramp_layer (1 / 4) 0 0 4 0
   = (None, ramp_layer\<lparr>H := ident4, layer_weight := [[4, 0, 3, 0]]\<rparr>)"
proof -
  have "fasterprune ramp_layer (1 / 4) 0 0 4 0
      = factor_and_prune ramp_layer (1 / 4) 0 0 4 ident4 [[4, 1, 3, 2]]"
    by (simp add: fasterprune_def ramp_layer_def fresh_layer_def
        neutralize_ident4 add_damp_ident4)
  also have "\<dots> = (None, ramp_layer\<lparr>H := ident4, layer_weight := [[4, 0, 3, 0]]\<rparr>)"
    by (rule factor_and_prune_ident4[OF _ _ _ block_step_ramp])
      (simp_all add: ramp_layer_def fresh_layer_def)
  finally show ?thesis .
qed

text \<open>2:4 pruning of four different weights.\<close>

lemma initial_mask_n_of_m:
  "initial_mask 2 sparsity (Suc 0) 4 Wb ident4 = Inr [[False, False, False, False]]"
  by (simp add: initial_mask_def mk_matrix_def upt4)

lemma col_loop_ramp_2_4:
  "fold_err (col_step None 2 4 (Suc 0) 4 ident4) [0..<4]
     (block_init (Suc 0) 4 [[4, 1, 3, 2]] [[False, False, False, False]])
   = Inr \<lparr>W1 = [[4, 0, 3, 0]], Q1 = [[4, 0, 3, 0]], Err1 = [[0, 1, 0, 2]],
          mask1 = [[False, True, False, True]]\<rparr>"
  by (simp add: col_step_def block_init_def mk_matrix_def ident4_def upt4 Let_def
      topk_smallest_def)

lemma block_step_ramp_2_4:
  "block_step None (1 / 2) 2 4 4 (Suc 0) 4 ident4 0 [[4, 1, 3, 2]] = Inr [[4, 0, 3, 0]]"
  unfolding block_step_def Let_def block_slices4 initial_mask_n_of_m sum.case col_loop_ramp_2_4
  by (simp add: block_store_def mk_matrix_def upt4)

lemma fasterprune_ramp_2_4:
  "fasterprune ramp_layer (1 / 2) 2 4 4 0
   = (None, ramp_layer\<lparr>H := ident4, layer_weight := [[4, 0, 3, 0]]\<rparr>)"
proof -
  have "fasterprune ramp_layer (1 / 2) 2 4 4 0
      = factor_and_prune ramp_layer (1 / 2) 2 4 4 ident4 [[4, 1, 3, 2]]"
    by (simp add: fasterprune_def ramp_layer_def fresh_layer_def
        neutralize_ident4 add_damp_ident4)
  also have "\<dots> = (None, ramp_layer\<lparr>H := ident4, layer_weight := [[4, 0, 3, 0]]\<rparr>)"
    by (rule factor_and_prune_ident4[OF _ _ _ block_step_ramp_2_4])
      (simp_all add: ramp_layer_def fresh_layer_def)
  finally show ?thesis .
qed

text \<open>2:4 pruning of a weight with three zeros.\<close>

lemma col_loop_sparse_2_4:
  "fold_err (col_step None 2 4 (Suc 0) 4 ident4) [0..<4]
     (block_init (Suc 0) 4 [[0, 0, 0, 5]] [[False, False, False, False]])
   = Inr \<lparr>W1 = [[0, 0, 0, 5]], Q1 = [[0, 0, 0, 5]], Err1 = [[0, 0, 0, 0]],
          mask1 = [[True, True, False, False]]\<rparr>"
  by (simp add: col_step_def block_init_def mk_matrix_def ident4_def upt4 Let_def
      topk_smallest_def)

lemma block_step_sparse_2_4:
  "block_step None (1 / 2) 2 4 4 (Suc 0) 4 ident4 0 [[0, 0, 0, 5]] = Inr [[0, 0, 0, 5]]"
  unfolding block_step_def Let_def block_slices4 initial_mask_n_of_m sum.case col_loop_sparse_2_4
  by (simp add: block_store_def mk_matrix_def upt4)

lemma fasterprune_sparse_2_4:
  "fasterprune sparse_layer (1 / 2) 2 4 4 0
   = (None, sparse_layer\<lparr>H := ident4, layer_weight := [[0, 0, 0, 5]]\<rparr>)"
proof -
  have "fasterprune sparse_layer (1 / 2) 2 4 4 0
      = factor_and_prune sparse_layer (1 / 2) 2 4 4 ident4 [[0, 0, 0, 5]]"
    by (simp add: fasterprune_def sparse_layer_def ramp_layer_def fresh_layer_def
        neutralize_ident4 add_damp_ident4)
  also have "\<dots> = (None, sparse_layer\<lparr>H := ident4, layer_weight := [[0, 0, 0, 5]]\<rparr>)"
    by (rule factor_and_prune_ident4[OF _ _ _ block_step_sparse_2_4])
      (simp_all add: sparse_layer_def ramp_layer_def fresh_layer_def)
  finally show ?thesis .
qed

subsection \<open>add_batch\<close>






text \<open>
  Claim C9. For a Linear or Conv1D layer, a 2-D input \<open>[k, f]\<close> adds exactly 1 to the sample
  count, whatever \<open>k\<close> is, and a 3-D input \<open>[b, k, f]\<close> adds its leading dimension \<open>b\<close>.
  The count is a 32-bit integer; a call that would bring it to 0 divides by zero and is
  left out.
\<close>

theorem add_batch_sample_count:
  assumes "is_linear_like (layer_class st)" and "0 < f"
  shows "(sint (nsamples st + 1) \<noteq> 0 \<longrightarrow>
            nsamples (snd (add_batch st \<lparr>shape = [k, f], data = xs\<rparr>)) = nsamples st + 1) \<and>
         (sint (nsamples st + of_nat b) \<noteq> 0 \<longrightarrow>
            nsamples (snd (add_batch st \<lparr>shape = [b, k, f], data = ys\<rparr>)) = nsamples st + of_nat b)"
  using add_batch_nsamples[OF batch_input_2d[OF assms], of k xs]
    add_batch_nsamples[OF batch_input_3d[OF assms], of b k ys]
  by simp

theorem add_batch_sample_count_witness:
  "is_linear_like (layer_class ramp_layer) \<and>
   nsamples ramp_layer = 2 \<and>
   nsamples (snd (add_batch ramp_layer \<lparr>shape = [7, 4], data = replicate 28 1\<rparr>)) = 3 \<and>
   nsamples (snd (add_batch ramp_layer \<lparr>shape = [5, 7, 4], data = replicate 140 1\<rparr>)) = 7"
  using add_batch_sample_count[of ramp_layer 4 7 "replicate 28 1" 5 "replicate 140 1"]
  by (simp add: ramp_layer_def fresh_layer_def is_linear_like_def)

subsection \<open>fasterprune\<close>

lemma neutralize_dead_entries:
  assumes "neutralize_dead r c Hm W = (H1, W0)"
  shows "i < c \<Longrightarrow> j < c \<Longrightarrow> H1 ! i ! j = (if i = j \<and> Hm ! i ! i = 0 then 1 else Hm ! i ! j)"
    and "a < r \<Longrightarrow> j < c \<Longrightarrow> W0 ! a ! j = (if Hm ! j ! j = 0 then 0 else W ! a ! j)"
  using assms by (auto simp: neutralize_dead_def diag_of_def Let_def nth_mk_matrix)

lemma add_damp_entries:
  assumes "i < c" "j < c"
  shows "add_damp c percdamp Hm ! i ! j
       = Hm ! i ! j + (if i = j then percdamp * ((\<Sum>k<c. Hm ! k ! k) / real c) else 0)"
proof -
  have "sum_list (diag_of c Hm) = (\<Sum>k<c. Hm ! k ! k)"
    by (simp add: diag_of_def interv_sum_list_conv_sum_set_nat atLeast0LessThan)
  then show ?thesis using assms by (simp add: add_damp_def Let_def nth_mk_matrix)
qed

text \<open>
  Claim C7. \<^verbatim>\<open>fasterprune\<close> factorises a matrix \<open>H2\<close> and prunes weights \<open>W0\<close> obtained as follows:
  in \<open>H1\<close> every zero diagonal entry of the accumulator is replaced by 1, in \<open>W0\<close> the
  weight columns of these entries are zero, and \<open>H2\<close> is \<open>H1\<close> with \<open>percdamp\<close> times the
  mean of the diagonal of \<open>H1\<close> added to every diagonal entry. The first factorisation is
  that of \<open>H2\<close>: when it fails, \<open>H2\<close> is what the call leaves in \<open>H\<close>.
\<close>

theorem fasterprune_dead_features_and_damping:
  "\<exists>H1 H2 W0.
     (\<forall>i<columns st. \<forall>j<columns st.
        H1 ! i ! j = (if i = j \<and> H st ! i ! i = 0 then 1 else H st ! i ! j)) \<and>
     (\<forall>a<rows st. \<forall>j<columns st.
        W0 ! a ! j = (if H st ! j ! j = 0 then 0 else layer_weight st ! a ! j)) \<and>
     (\<forall>i<columns st. \<forall>j<columns st.
        H2 ! i ! j = H1 ! i ! j +
          (if i = j then percdamp * ((\<Sum>k<columns st. H1 ! k ! k) / real (columns st)) else 0)) \<and>
     fasterprune st sparsity prunen prunem blocksize percdamp
       = factor_and_prune st sparsity prunen prunem blocksize H2 W0 \<and>
     (cholesky (columns st) H2 = None \<longrightarrow>
        fasterprune st sparsity prunen prunem blocksize percdamp
          = (Some LinAlgError, st\<lparr>H := H2\<rparr>))"
proof -
  obtain H1 W0 where nd: "neutralize_dead (rows st) (columns st) (H st) (layer_weight st) = (H1, W0)"
    by (cases "neutralize_dead (rows st) (columns st) (H st) (layer_weight st)")
  let ?H2 = "add_damp (columns st) percdamp H1"
  have fp: "fasterprune st sparsity prunen prunem blocksize percdamp
      = factor_and_prune st sparsity prunen prunem blocksize ?H2 W0"
    by (simp add: fasterprune_def nd)
  have fail: "cholesky (columns st) ?H2 = None \<longrightarrow>
        fasterprune st sparsity prunen prunem blocksize percdamp
          = (Some LinAlgError, st\<lparr>H := ?H2\<rparr>)"
    unfolding fp by (simp add: factor_and_prune_def)
  show ?thesis
    apply (rule exI[of _ H1], rule exI[of _ ?H2], rule exI[of _ W0])
    using neutralize_dead_entries[OF nd] add_damp_entries[of _ "columns st" _ percdamp H1] fp fail
    by simp
qed

theorem fasterprune_dead_features_and_damping_witness:
  "\<exists>H2 W0.
     fasterprune half_dead_layer (1 / 2) 0 0 128 (1 / 2)
       = factor_and_prune half_dead_layer (1 / 2) 0 0 128 H2 W0 \<and>
     H2 ! 0 ! 0 = 9 / 4 \<and> H2 ! 0 ! 1 = 0 \<and> H2 ! 1 ! 1 = 21 / 4 \<and>
     W0 ! 0 ! 0 = 0 \<and> W0 ! 0 ! 1 = 2 \<and> W0 ! 1 ! 0 = 0 \<and> W0 ! 1 ! 1 = 4"
proof -
  obtain H1 H2 W0 where
    h1: "\<forall>i<columns half_dead_layer. \<forall>j<columns half_dead_layer.
        H1 ! i ! j = (if i = j \<and> H half_dead_layer ! i ! i = 0 then 1 else H half_dead_layer ! i ! j)"
    and w0: "\<forall>a<rows half_dead_layer. \<forall>j<columns half_dead_layer.
        W0 ! a ! j = (if H half_dead_layer ! j ! j = 0 then 0 else layer_weight half_dead_layer ! a ! j)"
    and h2: "\<forall>i<columns half_dead_layer. \<forall>j<columns half_dead_layer.
        H2 ! i ! j = H1 ! i ! j +
          (if i = j then (1 / 2) * ((\<Sum>k<columns half_dead_layer. H1 ! k ! k) / real (columns half_dead_layer)) else 0)"
    and fp: "fasterprune half_dead_layer (1 / 2) 0 0 128 (1 / 2)
       = factor_and_prune half_dead_layer (1 / 2) 0 0 128 H2 W0"
    using fasterprune_dead_features_and_damping[of half_dead_layer "1 / 2" "1 / 2" 0 0 128]
    by blast
  have c: "columns half_dead_layer = 2" "rows half_dead_layer = 2"
    "H half_dead_layer = [[0, 0], [0, 4]]" "layer_weight half_dead_layer = [[1, 2], [3, 4]]"
    by (simp_all add: half_dead_layer_def)
  have two: "{..<2} = {0, 1::nat}" by auto
  have e: "H1 ! 0 ! 0 = 1" "H1 ! 0 ! Suc 0 = 0" "H1 ! Suc 0 ! Suc 0 = 4"
    using h1[rule_format, of 0 0] h1[rule_format, of 0 1] h1[rule_format, of 1 1]
    by (simp_all add: c)
  have "H2 ! 0 ! 0 = 9 / 4" "H2 ! 0 ! 1 = 0" "H2 ! 1 ! 1 = 21 / 4"
    using h2[rule_format, of 0 0] h2[rule_format, of 0 1] h2[rule_format, of 1 1]
    unfolding c two by (simp_all add: e)
  moreover have "W0 ! 0 ! 0 = 0" "W0 ! 0 ! 1 = 2" "W0 ! 1 ! 0 = 0" "W0 ! 1 ! 1 = 4"
    using w0[rule_format, of 0 0] w0[rule_format, of 0 1] w0[rule_format, of 1 0]
      w0[rule_format, of 1 1]
    by (simp_all add: c)
  ultimately show ?thesis using fp by blast
qed

text \<open>
  Claim C4, as stated, fails: on a layer with two samples accumulated, no dead feature
  and the weights \<open>[[0, 0, 0, 5]]\<close>, \<^verbatim>\<open>fasterprune\<close> with \<open>prunen = 2\<close>, \<open>prunem = 4\<close> masks two
  of the zero weights and leaves the third zero as it is: the group of four weights
  holds three zeros, not two.
\<close>

theorem fasterprune_n_of_m_counterexample:
  "fst (fasterprune sparse_layer (1 / 2) 2 4 4 0) = None \<and>
   nsamples sparse_layer = 2 \<and>
   diag_of 4 (H sparse_layer) = [1, 1, 1, 1] \<and>
   layer_weight sparse_layer = [[0, 0, 0, 5]] \<and>
   layer_weight (snd (fasterprune sparse_layer (1 / 2) 2 4 4 0)) = [[0, 0, 0, 5]] \<and>
   length (filter (\<lambda>j. layer_weight (snd (fasterprune sparse_layer (1 / 2) 2 4 4 0)) ! 0 ! j = 0)
             [0..<4]) = 3"
  by (simp add: fasterprune_sparse_2_4 upt4)
    (simp add: sparse_layer_def ramp_layer_def fresh_layer_def diag_of_def ident4_def upt4)

text \<open>
  Claim C4, amended. When \<^verbatim>\<open>fasterprune\<close> with \<open>prunen > 0\<close> returns, \<open>prunem\<close> divides the block
  size and the layer's fake quantisation (if any) maps 0 to 0, every row of the new
  weight has at least \<open>prunen\<close> zeros in every group of \<open>prunem\<close> columns starting at a
  multiple of \<open>prunem\<close>.
\<close>

theorem fasterprune_n_of_m_groups:
  assumes run: "fasterprune st sparsity prunen prunem blocksize percdamp = (None, st')"
    and n0: "0 < prunen" and pm: "0 < prunem" and dv: "prunem dvd blocksize"
    and kz: "keeps_zero (weight_fake_quant st)"
    and a: "a < rows st" and t: "(t + 1) * prunem \<le> columns st"
  shows "prunen \<le> length (filter (\<lambda>j. layer_weight st' ! a ! j = 0)
                            [t * prunem..<(t + 1) * prunem])"
proof -
  obtain Hinv W0 where
    fe: "fold_err (block_step (weight_fake_quant st) sparsity prunen prunem blocksize
                 (rows st) (columns st) Hinv)
        (block_starts (columns st) blocksize) W0 = Inr (layer_weight st')"
    and bp: "0 < blocksize"
    using fasterprune_success[OF run] by blast
  show ?thesis
    by (rule fasterprune_blocks_group[OF fe kz _ pm dv bp a t]) (use n0 in simp)
qed

theorem fasterprune_n_of_m_groups_witness:
  "fst (fasterprune ramp_layer (1 / 2) 2 4 4 0) = None \<and>
   keeps_zero (weight_fake_quant ramp_layer) \<and>
   layer_weight (snd (fasterprune ramp_layer (1 / 2) 2 4 4 0)) = [[4, 0, 3, 0]] \<and>
   (2::nat) \<le> length (filter (\<lambda>j. layer_weight (snd (fasterprune ramp_layer (1 / 2) 2 4 4 0)) ! 0 ! j = 0)
             [0 * 4..<(0 + 1) * 4])"
proof -
  have kz: "keeps_zero (weight_fake_quant ramp_layer)"
    by (simp add: keeps_zero_def ramp_layer_def fresh_layer_def)
  have "(2::nat) \<le> length (filter (\<lambda>j. layer_weight (ramp_layer\<lparr>H := ident4, layer_weight := [[4, 0, 3, 0]]\<rparr>) ! 0 ! j = 0)
             [0 * 4..<(0 + 1) * 4])"
    by (rule fasterprune_n_of_m_groups[OF fasterprune_ramp_2_4 _ _ _ kz])
      (simp_all add: ramp_layer_def fresh_layer_def)
  then show ?thesis using kz by (simp add: fasterprune_ramp_2_4)
qed

text \<open>
  Claim C2, as stated, fails: four equal weights, no dead feature, one block,
  \<open>sparsity = 1/4\<close>. The threshold is the score at index \<open>\<lfloor>4 \<cdot> 1/4\<rfloor> = 1\<close> of the sorted
  scores; all four scores equal it, so all four weights are pruned: the fraction of
  zeros is 1.
\<close>

theorem fasterprune_unstructured_counterexample:
  "fst (fasterprune tied_layer (1 / 4) 0 0 4 0) = None \<and>
   layer_weight tied_layer = [[1, 1, 1, 1]] \<and>
   diag_of 4 (H tied_layer) = [1, 1, 1, 1] \<and>
   zeros_between 1 0 4 (layer_weight (snd (fasterprune tied_layer (1 / 4) 0 0 4 0))) = 4"
  by (simp add: fasterprune_tied zeros_between_def upt4)
    (simp add: tied_layer_def ramp_layer_def fresh_layer_def diag_of_def ident4_def upt4)

text \<open>
  Claim C2, amended. When \<^verbatim>\<open>fasterprune\<close> with \<open>prunen = 0\<close> returns on a layer with at least
  one column whose fake quantisation (if any) maps 0 to 0, the new weight has more than
  \<open>sparsity \<cdot> rows \<cdot> columns\<close> zero entries: the fraction of zeros is above \<open>sparsity\<close>.
  There is no bound from above.
\<close>

theorem fasterprune_unstructured_zeros:
  assumes run: "fasterprune st sparsity 0 prunem blocksize percdamp = (None, st')"
    and kz: "keeps_zero (weight_fake_quant st)" and c: "0 < columns st"
  shows "sparsity * real (rows st * columns st)
       < real (zeros_between (rows st) 0 (columns st) (layer_weight st'))"
proof -
  obtain Hinv W0 where
    fe: "fold_err (block_step (weight_fake_quant st) sparsity 0 prunem blocksize
                 (rows st) (columns st) Hinv)
        (block_starts (columns st) blocksize) W0 = Inr (layer_weight st')"
    and bp: "0 < blocksize"
    using fasterprune_success[OF run] by blast
  show ?thesis by (rule fasterprune_blocks_zeros[OF fe kz bp c])
qed

theorem fasterprune_unstructured_zeros_witness:
  "fst (fasterprune ramp_layer (1 / 4) 0 0 4 0) = None \<and>
   keeps_zero (weight_fake_quant ramp_layer) \<and>
   layer_weight (snd (fasterprune ramp_layer (1 / 4) 0 0 4 0)) = [[4, 0, 3, 0]] \<and>
   1 / 4 * real (rows ramp_layer * columns ramp_layer)
     < real (zeros_between (rows ramp_layer) 0 (columns ramp_layer)
               (layer_weight (snd (fasterprune ramp_layer (1 / 4) 0 0 4 0))))"
proof -
  have kz: "keeps_zero (weight_fake_quant ramp_layer)"
    by (simp add: keeps_zero_def ramp_layer_def fresh_layer_def)
  have "1 / 4 * real (rows ramp_layer * columns ramp_layer)
     < real (zeros_between (rows ramp_layer) 0 (columns ramp_layer)
               (layer_weight (ramp_layer\<lparr>H := ident4, layer_weight := [[4, 0, 3, 0]]\<rparr>)))"
    by (rule fasterprune_unstructured_zeros[OF fasterprune_ramp kz])
      (simp add: ramp_layer_def fresh_layer_def)
  then show ?thesis using kz by (simp add: fasterprune_ramp)
qed

end
